theory Spec2Isabelle
  imports Main "HOL-Library.List_Lexorder" "HOL-Library.Char_ord" "HOL-Library.Sublist"
begin

section \<open>JavaScript values\<close>

text \<open>
  The values that \<^verbatim>\<open>values.js\<close> inspects. A plain object is the list of its own
  enumerable string-keyed properties, in the order that \<^verbatim>\<open>Object.keys\<close> lists them; a
  \<^verbatim>\<open>Buffer\<close> is its bytes;
  \<open>Boxed p\<close> is the wrapper object \<^verbatim>\<open>Object(p)\<close> of a primitive. Strings are byte
  strings (one \<open>char\<close> per code unit), so the \<^verbatim>\<open>'binary'\<close> encoding of a buffer is
  the identity on the bytes. Numbers are integers. Properties that are not own and
  enumerable (\<^verbatim>\<open>length\<close>, \<^verbatim>\<open>toString\<close>) are outside the model, and so is the
  prototype of an object.
\<close>

datatype jsval =
    Undefined
  | Null
  | Bool bool
  | Num int
  | Str string
  | Buf string
  | Arr "jsval list"
  | Obj "(string \<times> jsval) list"
  | Boxed jsval

fun typeof :: "jsval \<Rightarrow> string" where
  "typeof Undefined = ''undefined''"
| "typeof Null = ''object''"
| "typeof (Bool b) = ''boolean''"
| "typeof (Num n) = ''number''"
| "typeof (Str s) = ''string''"
| "typeof (Buf b) = ''object''"
| "typeof (Arr xs) = ''object''"
| "typeof (Obj kvs) = ''object''"
| "typeof (Boxed p) = ''object''"

text \<open>\<open>truthy v\<close> is \<^verbatim>\<open>!!v\<close>.\<close>

fun truthy :: "jsval \<Rightarrow> bool" where
  "truthy Undefined = False"
| "truthy Null = False"
| "truthy (Bool b) = b"
| "truthy (Num n) = (n \<noteq> 0)"
| "truthy (Str s) = (s \<noteq> [])"
| "truthy (Buf b) = True"
| "truthy (Arr xs) = True"
| "truthy (Obj kvs) = True"
| "truthy (Boxed p) = True"

text \<open>Decimal rendering of a number, as \<^verbatim>\<open>%s\<close> and \<^verbatim>\<open>String(i)\<close> give it.\<close>

fun showNat :: "nat \<Rightarrow> string" where
  "showNat n =
     (if n < 10 then [''0123456789'' ! n]
      else showNat (n div 10) @ [''0123456789'' ! (n mod 10)])"

declare showNat.simps [simp del]

definition indexKeys :: "nat \<Rightarrow> string list" where
  "indexKeys n = map showNat [0..<n]"

text \<open>\<^verbatim>\<open>Object.keys(v)\<close> for a value that is not \<^verbatim>\<open>null\<close> or \<^verbatim>\<open>undefined\<close>.\<close>

fun objectKeys :: "jsval \<Rightarrow> string list" where
  "objectKeys (Obj kvs) = map fst kvs"
| "objectKeys (Arr xs) = indexKeys (length xs)"
| "objectKeys (Buf b) = indexKeys (length b)"
| "objectKeys (Str s) = indexKeys (length s)"
| "objectKeys (Boxed (Str s)) = indexKeys (length s)"
| "objectKeys v = []"

definition lookupOr :: "(string \<times> jsval) list \<Rightarrow> string \<Rightarrow> jsval" where
  "lookupOr kvs k = (case map_of kvs k of None \<Rightarrow> Undefined | Some v \<Rightarrow> v)"

text \<open>\<^verbatim>\<open>v[k]\<close> on own properties; an absent property reads as \<^verbatim>\<open>undefined\<close>.\<close>

fun getProp :: "jsval \<Rightarrow> string \<Rightarrow> jsval" where
  "getProp (Obj kvs) k = lookupOr kvs k"
| "getProp (Arr xs) k = lookupOr (zip (indexKeys (length xs)) xs) k"
| "getProp (Buf b) k =
     lookupOr (zip (indexKeys (length b)) (map (\<lambda>c. Num (of_char c)) b)) k"
| "getProp (Str s) k =
     lookupOr (zip (indexKeys (length s)) (map (\<lambda>c. Str [c]) s)) k"
| "getProp (Boxed (Str s)) k =
     lookupOr (zip (indexKeys (length s)) (map (\<lambda>c. Str [c]) s)) k"
| "getProp v k = Undefined"

text \<open>\<^verbatim>\<open>o[k] = v\<close> on a plain object, for a key that is a name of the type model
  (line 271): an existing key keeps its place, a new one is appended.\<close>

fun objSet :: "(string \<times> jsval) list \<Rightarrow> string \<Rightarrow> jsval \<Rightarrow> (string \<times> jsval) list" where
  "objSet [] k v = [(k, v)]"
| "objSet (p # ps) k v = (if fst p = k then (k, v) # ps else p # objSet ps k v)"

text \<open>The number that a string of decimal digits writes.\<close>

definition isDigit :: "char \<Rightarrow> bool" where
  "isDigit c = (48 \<le> (of_char c :: int) \<and> (of_char c :: int) \<le> 57)"

definition readNat :: "string \<Rightarrow> int" where
  "readNat s = foldl (\<lambda>n c. 10 * n + (of_char c - 48)) 0 s"

text \<open>An array index is the decimal writing, without a leading zero, of an integer from
  \<open>0\<close> to \<open>2\<^sup>3\<^sup>2 - 2\<close>. The own keys of an object list the array indices first, in
  numeric order, and the other strings after them, in the order of their creation.\<close>

definition isArrayIndex :: "string \<Rightarrow> bool" where
  "isArrayIndex k =
     (k \<noteq> [] \<and> list_all isDigit k \<and> (if hd k = CHR ''0'' then length k = 1 else True)
      \<and> readNat k \<le> 4294967294)"

fun insertIndex ::
  "(string \<times> jsval) list \<Rightarrow> string \<Rightarrow> jsval \<Rightarrow> (string \<times> jsval) list" where
  "insertIndex [] k v = [(k, v)]"
| "insertIndex (p # ps) k v =
     (if isArrayIndex (fst p) \<and> readNat (fst p) < readNat k then p # insertIndex ps k v
      else (k, v) # p # ps)"

text \<open>\<^verbatim>\<open>o[k] = v\<close> on a plain object, for a key that is data (line 323). The key
  \<^verbatim>\<open>__proto__\<close> reaches the setter that every plain object inherits, and no own property
  is stored under it; the prototype that the setter gives the object when the value is an
  object is outside the model. The value of an existing key is replaced where it is. A new
  key takes its place in the order of the own keys.\<close>

definition objAssign ::
  "(string \<times> jsval) list \<Rightarrow> string \<Rightarrow> jsval \<Rightarrow> (string \<times> jsval) list" where
  "objAssign kvs k v =
     (if k = ''__proto__'' then kvs
      else if k \<in> set (map fst kvs) then map (\<lambda>p. if fst p = k then (k, v) else p) kvs
      else if isArrayIndex k then insertIndex kvs k v
      else kvs @ [(k, v)])"

text \<open>\<^verbatim>\<open>xs.join(sep)\<close> on an array of strings.\<close>

fun join :: "string \<Rightarrow> string list \<Rightarrow> string" where
  "join sep [] = []"
| "join sep [x] = x"
| "join sep (x # y # ys) = x @ sep @ join sep (y # ys)"

section \<open>The type model\<close>

text \<open>
  Schema types are built outside \<^verbatim>\<open>values.js\<close>; the cloner reads their
  \<^verbatim>\<open>typeName\<close>, \<^verbatim>\<open>branchName\<close>, \<^verbatim>\<open>itemsType\<close>, \<^verbatim>\<open>valuesType\<close>, \<^verbatim>\<open>fields\<close>,
  \<^verbatim>\<open>types\<close> and \<^verbatim>\<open>underlyingType\<close>. A type is a finite tree here (a schema without
  recursive references).
\<close>

datatype prim = PNull | PBoolean | PInt | PLong | PFloat | PDouble | PString | PEnum string

datatype avtype =
    PrimT prim
  | BytesT
  | FixedT string
  | ArrayT (itemsType: avtype)
  | MapT (valuesType: avtype)
  | RecordT (isError: bool) (recordName: string) (recordFields: "field list")
  | UnionT (isWrappedUnion: bool) (types: "avtype list")
  | LogicalT (logicalName: string) (underlyingType: avtype)
and field =
    Field (fieldName: string) (fieldType: avtype) (defaultValue: jsval)

text \<open>Modelled from the spec: the category tag of a type (\<^verbatim>\<open>type.typeName\<close>).\<close>

fun typeName :: "avtype \<Rightarrow> string" where
  "typeName (PrimT PNull) = ''null''"
| "typeName (PrimT PBoolean) = ''boolean''"
| "typeName (PrimT PInt) = ''int''"
| "typeName (PrimT PLong) = ''long''"
| "typeName (PrimT PFloat) = ''float''"
| "typeName (PrimT PDouble) = ''double''"
| "typeName (PrimT PString) = ''string''"
| "typeName (PrimT (PEnum n)) = ''enum''"
| "typeName BytesT = ''bytes''"
| "typeName (FixedT n) = ''fixed''"
| "typeName (ArrayT t) = ''array''"
| "typeName (MapT t) = ''map''"
| "typeName (RecordT e n fs) = (if e then ''error'' else ''record'')"
| "typeName (UnionT w ts) = (if w then ''union:wrapped'' else ''union:unwrapped'')"
| "typeName (LogicalT n t) = ''logical:'' @ n"

text \<open>Modelled from the spec: the declared branch name of a type
  (\<^verbatim>\<open>type.branchName\<close>): the name of a named type, the type name otherwise, and for a
  logical type that of its underlying type. A union has none (\<^verbatim>\<open>undefined\<close>).\<close>

fun branchName :: "avtype \<Rightarrow> string" where
  "branchName (PrimT (PEnum n)) = n"
| "branchName (FixedT n) = n"
| "branchName (RecordT e n fs) = n"
| "branchName (LogicalT n t) = branchName t"
| "branchName (UnionT w ts) = ''undefined''"
| "branchName t = typeName t"

text \<open>Modelled from the spec: branch lookup by name (\<^verbatim>\<open>unionType.type(key)\<close>) and
  field lookup by name (\<^verbatim>\<open>type.field(name)\<close>).\<close>

definition unionBranch :: "avtype \<Rightarrow> string \<Rightarrow> avtype option" where
  "unionBranch u key = find (\<lambda>t. branchName t = key) (types u)"

definition recordField :: "avtype \<Rightarrow> string \<Rightarrow> field option" where
  "recordField t n = find (\<lambda>f. fieldName f = n) (recordFields t)"

text \<open>Modelled from the spec: \<^verbatim>\<open>branchType.wrap(val)\<close>, the single-key representation
  of a non-null branch value; the null branch is not wrapped.\<close>

definition wrap :: "avtype \<Rightarrow> jsval \<Rightarrow> jsval" where
  "wrap t v = (if t = PrimT PNull then Null else Obj [(branchName t, v)])"

definition isBufferType :: "avtype \<Rightarrow> bool" where
  "isBufferType t = (case t of BytesT \<Rightarrow> True | FixedT n \<Rightarrow> True | _ \<Rightarrow> False)"

section \<open>Errors, paths and the builder\<close>

datatype step = Key string | Index nat

type_synonym path = "step list"

record valueError =
  message :: string
  errValue :: jsval
  expectedType :: avtype
  errPath :: path

text \<open>What a call can throw: a \<^verbatim>\<open>TypeError\<close> of the runtime, a plain
  \<^verbatim>\<open>new Error(msg)\<close>, and the error of \<^verbatim>\<open>Builder.build\<close>, whose \<^verbatim>\<open>code\<close> is
  \<^verbatim>\<open>ERR_AVRO_INCOMPATIBLE_VALUE\<close> and which carries \<^verbatim>\<open>type\<close> and \<^verbatim>\<open>errors\<close>.\<close>

datatype exn =
    TypeError
  | PlainError string
  | IncompatibleValue string avtype "valueError list"

text \<open>
  The capabilities the cloner consults and that live outside \<^verbatim>\<open>values.js\<close>: the
  validity predicate, the comparison (called with \<^verbatim>\<open>allowMaps\<close>), branch resolution of
  an unwrapped union, the two hooks of a logical type (\<open>Inl msg\<close>: the hook throws an
  error with that message), the record constructor, \<^verbatim>\<open>Buffer.from\<close> on a value that is
  not a buffer, and three renderings of the runtime: \<^verbatim>\<open>%j\<close>, \<^verbatim>\<open>%s\<close> of an array of
  keys, and \<^verbatim>\<open>isNaN\<close> of a string.
\<close>

record caps =
  isValid :: "avtype \<Rightarrow> jsval \<Rightarrow> bool"
  compare :: "avtype \<Rightarrow> jsval \<Rightarrow> jsval \<Rightarrow> int"
  branchType :: "avtype \<Rightarrow> jsval \<Rightarrow> avtype option"
  toValue :: "avtype \<Rightarrow> jsval \<Rightarrow> string + jsval"
  fromValue :: "avtype \<Rightarrow> jsval \<Rightarrow> string + jsval"
  recordConstructor :: "avtype \<Rightarrow> jsval list \<Rightarrow> jsval"
  bufferFromOther :: "jsval \<Rightarrow> exn + string"
  stringify :: "jsval \<Rightarrow> string"
  formatKeys :: "string list \<Rightarrow> string"
  isNaNString :: "string \<Rightarrow> bool"

record builder =
  "value" :: jsval
  errors :: "valueError list"

definition newBuilder :: builder where
  "newBuilder = \<lparr> value = Undefined, errors = [] \<rparr>"

definition isOk :: "builder \<Rightarrow> bool" where
  "isOk b = (errors b = [])"

fun joinPath :: "caps \<Rightarrow> path \<Rightarrow> string" where
  "joinPath C [] = []"
| "joinPath C (Index i # ps) = ''['' @ showNat i @ '']'' @ joinPath C ps"
| "joinPath C (Key k # ps) =
     (if isNaNString C k then ''.'' @ k else ''['' @ k @ '']'') @ joinPath C ps"

definition typeInfo :: "avtype \<Rightarrow> string" where
  "typeInfo t =
     (case t of
        UnionT w ts \<Rightarrow> ''a type among '' @ join '', '' (map branchName ts)
      | LogicalT n u \<Rightarrow> ''type '' @ typeName t @ '' ('' @ branchName t @ '')''
      | _ \<Rightarrow> ''type '' @ branchName t)"

text \<open>The error object that \<^verbatim>\<open>addError\<close> creates (lines 87 to 92).\<close>

definition newValueError :: "caps \<Rightarrow> string \<Rightarrow> jsval \<Rightarrow> avtype \<Rightarrow> path \<Rightarrow> valueError" where
  "newValueError C desc v t p =
     \<lparr> message = ''$'' @ joinPath C p @ '' has '' @ typeInfo t @ '' but '' @ desc @ '': ''
                    @ stringify C v,
        errValue = v, expectedType = t, errPath = p \<rparr>"

definition addError :: "caps \<Rightarrow> builder \<Rightarrow> string \<Rightarrow> jsval \<Rightarrow> avtype \<Rightarrow> path \<Rightarrow> builder" where
  "addError C b desc v t p = b\<lparr> errors := errors b @ [newValueError C desc v t p] \<rparr>"

definition copyErrorsFrom :: "builder \<Rightarrow> builder \<Rightarrow> builder" where
  "copyErrorsFrom b other =
     (if errors other \<noteq> [] then b\<lparr> errors := errors b @ errors other \<rparr> else b)"

definition build :: "builder \<Rightarrow> avtype \<Rightarrow> exn + jsval" where
  "build b t =
     (if errors b = [] then Inr (value b)
      else
        let details = map (\<lambda>e. [CHR 0x09] @ message e) (errors b);
            msg = showNat (length (errors b)) @ '' error(s) when expecting '' @ typeInfo t
                  @ '':'' @ [CHR 0x0A] @ join [CHR 0x0A] details
        in Inl (IncompatibleValue msg t (errors b)))"

section \<open>The cloner\<close>

datatype mode = TO_JSON | FROM_JSON | FROM_DEFAULT_JSON

record opts =
  optAllowUndeclaredFields :: bool
  optOmitDefaultValues :: bool

record cloner =
  mode :: mode
  allowUndeclaredFields :: bool
  omitDefaultValues :: bool

definition Cloner :: "mode \<Rightarrow> opts \<Rightarrow> exn + cloner" where
  "Cloner m os =
     (if optOmitDefaultValues os \<and> m \<noteq> TO_JSON then Inl (PlainError ''invalid cloner options'')
      else Inr \<lparr> mode = m, allowUndeclaredFields = optAllowUndeclaredFields os,
                 omitDefaultValues = optOmitDefaultValues os \<rparr>)"

type_synonym cloneCall = "jsval \<Rightarrow> avtype \<Rightarrow> path \<Rightarrow> exn + builder"

subsection \<open>Primitives and buffers\<close>

text \<open>\<^verbatim>\<open>utils.bufferFrom(val)\<close>: a buffer is copied.\<close>

definition bufferFrom :: "caps \<Rightarrow> jsval \<Rightarrow> exn + string" where
  "bufferFrom C v = (case v of Buf b \<Rightarrow> Inr b | _ \<Rightarrow> bufferFromOther C v)"

text \<open>\<^verbatim>\<open>builder.value.toString('binary')\<close>, where \<^verbatim>\<open>builder.value\<close> is a buffer or still
  \<^verbatim>\<open>undefined\<close>; reading a property of \<^verbatim>\<open>undefined\<close> throws a \<^verbatim>\<open>TypeError\<close>.\<close>

definition toStringBinary :: "jsval \<Rightarrow> exn + jsval" where
  "toStringBinary v = (case v of Buf b \<Rightarrow> Inr (Str b) | _ \<Rightarrow> Inl TypeError)"

text \<open>Lines 189 to 197 of \<^verbatim>\<open>_onPrimitive\<close>: \<open>v\<close> is the value checked, \<open>any\<close> the
  input reported in an error.\<close>

definition checkPrimitive :: "caps \<Rightarrow> cloner \<Rightarrow> jsval \<Rightarrow> jsval \<Rightarrow> avtype \<Rightarrow> path \<Rightarrow> exn + builder" where
  "checkPrimitive C c any v t p =
     (case (if isValid C t v
            then (if isBufferType t
                  then (case bufferFrom C v of
                          Inl e \<Rightarrow> Inl e
                        | Inr b \<Rightarrow> Inr (newBuilder\<lparr> value := Buf b \<rparr>))
                  else Inr (newBuilder\<lparr> value := v \<rparr>))
            else Inr (addError C newBuilder ''invalid value'' any t p)) of
        Inl e \<Rightarrow> Inl e
      | Inr builder \<Rightarrow>
          if mode c = TO_JSON \<and> isBufferType t
          then (case toStringBinary (value builder) of
                  Inl e \<Rightarrow> Inl e
                | Inr s \<Rightarrow> Inr (builder\<lparr> value := s \<rparr>))
          else Inr builder)"

text \<open>\<^verbatim>\<open>typeof any != 'string'\<close> holds for every value but a string \<open>Str s\<close>, whose
  \<^verbatim>\<open>'binary'\<close> decoding is the buffer of the same bytes.\<close>

definition onPrimitive :: "caps \<Rightarrow> cloner \<Rightarrow> jsval \<Rightarrow> avtype \<Rightarrow> path \<Rightarrow> exn + builder" where
  "onPrimitive C c any t p =
     (if isBufferType t \<and> mode c \<noteq> TO_JSON
      then (case any of
              Str s \<Rightarrow> checkPrimitive C c any (Buf s) t p
            | _ \<Rightarrow> Inr (addError C newBuilder ''is not a string'' any t p))
      else checkPrimitive C c any any t p)"

subsection \<open>Logical types\<close>

definition onLogical :: "caps \<Rightarrow> cloner \<Rightarrow> cloneCall \<Rightarrow> jsval \<Rightarrow> avtype \<Rightarrow> path \<Rightarrow> exn + builder" where
  "onLogical C c rec any t p =
     (case (if mode c = TO_JSON
            then (case toValue C t any of
                    Inr v \<Rightarrow>
                      if v = Undefined
                      then Inl (addError C newBuilder ''logical type encoding failed'' any t p)
                      else Inr v
                  | Inl msg \<Rightarrow>
                      Inl (addError C newBuilder
                             (''logical type encoding failed ('' @ msg @ '')'') any t p))
            else Inr any) of
        Inl failed \<Rightarrow> Inr failed
      | Inr v \<Rightarrow>
          (case rec v (underlyingType t) p of
             Inl e \<Rightarrow> Inl e
           | Inr builder \<Rightarrow>
               if \<not> isOk builder then Inr builder
               else if mode c \<noteq> TO_JSON
               then (case fromValue C t (value builder) of
                       Inr v' \<Rightarrow> Inr (builder\<lparr> value := v' \<rparr>)
                     | Inl msg \<Rightarrow>
                         Inr (addError C builder
                                (''logical type decoding failed ('' @ msg @ '')'') any t p))
               else Inr builder))"

subsection \<open>Arrays\<close>

fun onArrayItems ::
  "(jsval \<Rightarrow> path \<Rightarrow> exn + builder) \<Rightarrow> path \<Rightarrow> nat \<Rightarrow> jsval list \<Rightarrow> builder \<times> jsval list
    \<Rightarrow> exn + builder \<times> jsval list" where
  "onArrayItems rec p i [] st = Inr st"
| "onArrayItems rec p i (item # items) (builder, val) =
     (case rec item (p @ [Index i]) of
        Inl e \<Rightarrow> Inl e
      | Inr itemBuilder \<Rightarrow>
          let builder' = copyErrorsFrom builder itemBuilder in
          onArrayItems rec p (Suc i) items
            (builder', if isOk builder' then val @ [value itemBuilder] else val))"

definition onArray :: "caps \<Rightarrow> cloneCall \<Rightarrow> jsval \<Rightarrow> avtype \<Rightarrow> path \<Rightarrow> exn + builder" where
  "onArray C rec any t p =
     (case any of
        Arr items \<Rightarrow>
          (case onArrayItems (\<lambda>x q. rec x (itemsType t) q) p 0 items (newBuilder, []) of
             Inl e \<Rightarrow> Inl e
           | Inr (builder, val) \<Rightarrow>
               Inr (if isOk builder then builder\<lparr> value := Arr val \<rparr> else builder))
      | _ \<Rightarrow> Inr (addError C newBuilder ''is not an array'' any t p))"

subsection \<open>Maps\<close>

fun onMapKeys ::
  "(jsval \<Rightarrow> path \<Rightarrow> exn + builder) \<Rightarrow> jsval \<Rightarrow> path \<Rightarrow> string list
    \<Rightarrow> builder \<times> (string \<times> jsval) list \<Rightarrow> exn + builder \<times> (string \<times> jsval) list" where
  "onMapKeys rec any p [] st = Inr st"
| "onMapKeys rec any p (key # keys) (builder, val) =
     (case rec (getProp any key) (p @ [Key key]) of
        Inl e \<Rightarrow> Inl e
      | Inr valueBuilder \<Rightarrow>
          let builder' = copyErrorsFrom builder valueBuilder in
          onMapKeys rec any p keys
            (builder', if isOk builder' then objAssign val key (value valueBuilder) else val))"

definition onMap :: "caps \<Rightarrow> cloneCall \<Rightarrow> jsval \<Rightarrow> avtype \<Rightarrow> path \<Rightarrow> exn + builder" where
  "onMap C rec any t p =
     (if \<not> truthy any \<or> typeof any \<noteq> ''object''
      then Inr (addError C newBuilder ''is not a valid object'' any t p)
      else
        (case onMapKeys (\<lambda>x q. rec x (valuesType t) q) any p (sort (objectKeys any))
                (newBuilder, []) of
           Inl e \<Rightarrow> Inl e
         | Inr (builder, val) \<Rightarrow>
             Inr (if isOk builder then builder\<lparr> value := Obj val \<rparr> else builder)))"

subsection \<open>Records\<close>

text \<open>The keys of the input that \<^verbatim>\<open>type.field\<close> does not know.\<close>

definition extraFields :: "avtype \<Rightarrow> jsval \<Rightarrow> string list" where
  "extraFields t any = filter (\<lambda>fieldName. recordField t fieldName = None) (objectKeys any)"

text \<open>One turn of the loop over \<^verbatim>\<open>type.fields\<close> (lines 230 to 255). The state is the
  builder, \<^verbatim>\<open>missingFields\<close> and the field values pushed on \<^verbatim>\<open>args\<close> (without the
  leading \<^verbatim>\<open>undefined\<close>, which is the \<^verbatim>\<open>this\<close> of \<^verbatim>\<open>Record.bind\<close>).\<close>

definition onField ::
  "caps \<Rightarrow> cloner \<Rightarrow> cloneCall \<Rightarrow> jsval \<Rightarrow> path \<Rightarrow> field
    \<Rightarrow> builder \<times> string list \<times> jsval list \<Rightarrow> exn + builder \<times> string list \<times> jsval list" where
  "onField C c rec any p fld st =
     (case st of (builder, missingFields, args) \<Rightarrow>
        let fieldAny = getProp any (fieldName fld);
            fieldPath = p @ [Key (fieldName fld)];
            defaultVal = defaultValue fld
        in
          if fieldAny = Undefined \<and> defaultVal = Undefined
          then Inr (builder, missingFields @ [fieldName fld], args @ [Undefined])
          else if fieldAny = Undefined
          then
            (if mode c = TO_JSON \<and> \<not> omitDefaultValues c
             then (case rec defaultVal (fieldType fld) fieldPath of
                     Inl e \<Rightarrow> Inl e
                   | Inr fieldValBuilder \<Rightarrow>
                       Inr (builder, missingFields, args @ [value fieldValBuilder]))
             else Inr (builder, missingFields, args @ [Undefined]))
          else
            (case rec fieldAny (fieldType fld) fieldPath of
               Inl e \<Rightarrow> Inl e
             | Inr fieldValBuilder \<Rightarrow>
                 Inr (copyErrorsFrom builder fieldValBuilder, missingFields,
                      args @
                        [if omitDefaultValues c \<and> isOk fieldValBuilder \<and> defaultVal \<noteq> Undefined
                            \<and> compare C (fieldType fld) fieldAny defaultVal = 0
                         then Undefined
                         else value fieldValBuilder])))"

fun onFields ::
  "caps \<Rightarrow> cloner \<Rightarrow> cloneCall \<Rightarrow> jsval \<Rightarrow> path \<Rightarrow> field list
    \<Rightarrow> builder \<times> string list \<times> jsval list \<Rightarrow> exn + builder \<times> string list \<times> jsval list" where
  "onFields C c rec any p [] st = Inr st"
| "onFields C c rec any p (fld # flds) st =
     (case onField C c rec any p fld st of
        Inl e \<Rightarrow> Inl e
      | Inr st' \<Rightarrow> onFields C c rec any p flds st')"

text \<open>The loop of lines 268 to 273: \<^verbatim>\<open>args[i + 1]\<close> is stored under the name of field
  \<open>i\<close> unless it is \<^verbatim>\<open>undefined\<close>.\<close>

fun putFields :: "field list \<Rightarrow> jsval list \<Rightarrow> (string \<times> jsval) list \<Rightarrow> (string \<times> jsval) list" where
  "putFields [] args obj = obj"
| "putFields (fld # flds) [] obj = putFields flds [] obj"
| "putFields (fld # flds) (fieldVal # args) obj =
     putFields flds args
       (if fieldVal \<noteq> Undefined then objSet obj (fieldName fld) fieldVal else obj)"

definition onRecord :: "caps \<Rightarrow> cloner \<Rightarrow> cloneCall \<Rightarrow> jsval \<Rightarrow> avtype \<Rightarrow> path \<Rightarrow> exn + builder" where
  "onRecord C c rec any t p =
     (if \<not> truthy any \<or> typeof any \<noteq> ''object''
      then Inr (addError C newBuilder ''is not a valid object'' any t p)
      else
        let extra = extraFields t any;
            builder0 =
              (if \<not> allowUndeclaredFields c \<and> extra \<noteq> []
               then addError C newBuilder
                      (''contains '' @ showNat (length extra) @ '' undeclared field(s) (''
                         @ join '', '' extra @ '')'') any t p
               else newBuilder)
        in
          (case onFields C c rec any p (recordFields t) (builder0, [], []) of
             Inl e \<Rightarrow> Inl e
           | Inr (builder1, missingFields, args) \<Rightarrow>
               let builder2 =
                     (if missingFields \<noteq> []
                      then addError C builder1
                             (''is missing '' @ showNat (length missingFields) @ '' field(s) (''
                                @ join '','' missingFields @ '')'') any t p
                      else builder1)
               in
                 Inr (if isOk builder2
                      then (if mode c = TO_JSON
                            then builder2\<lparr> value := Obj (putFields (recordFields t) args []) \<rparr>
                            else builder2\<lparr> value := recordConstructor C t args \<rparr>)
                      else builder2)))"

subsection \<open>Unions\<close>

text \<open>The loop of lines 337 to 342.\<close>

fun hasNullBranch :: "avtype list \<Rightarrow> bool" where
  "hasNullBranch [] = False"
| "hasNullBranch (t # ts) = (if typeName t = ''null'' then True else hasNullBranch ts)"

text \<open>Lines 362 to 394: \<open>any\<close> is the value in its single-key form.
  \<^verbatim>\<open>Object.keys(null)\<close> throws a \<^verbatim>\<open>TypeError\<close>.\<close>

definition onUnionBranch :: "caps \<Rightarrow> cloner \<Rightarrow> cloneCall \<Rightarrow> jsval \<Rightarrow> avtype \<Rightarrow> path \<Rightarrow> exn + builder" where
  "onUnionBranch C c rec any unionType p =
     (if typeof any \<noteq> ''object''
      then Inr (addError C newBuilder ''is not an object'' any unionType p)
      else if any = Null then Inl TypeError
      else
        (case objectKeys any of
           [key] \<Rightarrow>
             (case unionBranch unionType key of
                None \<Rightarrow>
                  Inr (addError C newBuilder (''contains an unknown branch ('' @ key @ '')'')
                         any unionType p)
              | Some branch \<Rightarrow>
                  (case rec (getProp any key) branch (p @ [Key key]) of
                     Inl e \<Rightarrow> Inl e
                   | Inr branchBuilder \<Rightarrow>
                       let builder = copyErrorsFrom newBuilder branchBuilder in
                       Inr (if isOk branchBuilder
                            then (if mode c = TO_JSON
                                  then builder\<lparr> value :=
                                         Obj [(branchName branch, value branchBuilder)] \<rparr>
                                  else if typeName unionType \<noteq> ''union:wrapped''
                                  then builder\<lparr> value := value branchBuilder \<rparr>
                                  else builder\<lparr> value := wrap branch (value branchBuilder) \<rparr>)
                            else builder)))
         | keys \<Rightarrow>
             Inr (addError C newBuilder
                    (''has '' @ showNat (length keys) @ '' keys ('' @ formatKeys C keys @ '')'')
                    any unionType p)))"

definition onUnion :: "caps \<Rightarrow> cloner \<Rightarrow> cloneCall \<Rightarrow> jsval \<Rightarrow> avtype \<Rightarrow> path \<Rightarrow> exn + builder" where
  "onUnion C c rec any unionType p =
     (if any = Null
      then (if hasNullBranch (types unionType)
            then Inr (newBuilder\<lparr> value := Null \<rparr>)
            else Inr (addError C newBuilder ''is null'' any unionType p))
      else if mode c = FROM_DEFAULT_JSON
      then (case types unionType of
              [] \<Rightarrow> Inl TypeError
            | branch # ts \<Rightarrow>
                if typeName branch = ''null''
                then Inr (addError C newBuilder ''does not match first (null)'' any unionType p)
                else onUnionBranch C c rec (wrap branch any) unionType p)
      else if mode c = TO_JSON \<and> typeName unionType \<noteq> ''union:wrapped''
      then (case branchType C unionType any of
              None \<Rightarrow> Inr (addError C newBuilder ''is not a valid branch'' any unionType p)
            | Some branch \<Rightarrow> onUnionBranch C c rec (wrap branch any) unionType p)
      else onUnionBranch C c rec any unionType p)"

subsection \<open>Dispatch\<close>

lemma onLogical_cong [fundef_cong]:
  assumes "any = any'" "t = t'" "p = p'"
    and "\<And>x q. rec x (underlyingType t') q = rec' x (underlyingType t') q"
  shows "onLogical C c rec any t p = onLogical C c rec' any' t' p'"
  using assms by (simp add: onLogical_def cong: sum.case_cong if_cong)

lemma onArray_cong [fundef_cong]:
  assumes "any = any'" "t = t'" "p = p'"
    and "\<And>x q. rec x (itemsType t') q = rec' x (itemsType t') q"
  shows "onArray C rec any t p = onArray C rec' any' t' p'"
proof -
  have "(\<lambda>x q. rec x (itemsType t') q) = (\<lambda>x q. rec' x (itemsType t') q)"
    using assms(4) by (intro ext)
  then show ?thesis using assms(1-3) by (simp add: onArray_def cong: jsval.case_cong)
qed

lemma onMap_cong [fundef_cong]:
  assumes "any = any'" "t = t'" "p = p'"
    and "\<And>x q. rec x (valuesType t') q = rec' x (valuesType t') q"
  shows "onMap C rec any t p = onMap C rec' any' t' p'"
proof -
  have "(\<lambda>x q. rec x (valuesType t') q) = (\<lambda>x q. rec' x (valuesType t') q)"
    using assms(4) by (intro ext)
  then show ?thesis using assms(1-3) by (simp add: onMap_def cong: if_cong)
qed

lemma onFields_cong:
  assumes "\<And>fld x q. fld \<in> set flds \<Longrightarrow> rec x (fieldType fld) q = rec' x (fieldType fld) q"
  shows "onFields C c rec any p flds st = onFields C c rec' any p flds st"
  using assms
proof (induction flds arbitrary: st)
  case Nil
  show ?case by simp
next
  case (Cons fld flds)
  have "onField C c rec any p fld st = onField C c rec' any p fld st"
    using Cons.prems by (simp add: onField_def Let_def cong: sum.case_cong if_cong split: prod.splits)
  moreover have "\<And>st'. onFields C c rec any p flds st' = onFields C c rec' any p flds st'"
    using Cons.IH Cons.prems by simp
  ultimately show ?case by (simp cong: sum.case_cong)
qed

lemma onRecord_cong [fundef_cong]:
  assumes "any = any'" "t = t'" "p = p'"
    and "\<And>fld x q. fld \<in> set (recordFields t') \<Longrightarrow> rec x (fieldType fld) q = rec' x (fieldType fld) q"
  shows "onRecord C c rec any t p = onRecord C c rec' any' t' p'"
  using assms onFields_cong [of "recordFields t'" rec rec' C c any' p']
  by (simp add: onRecord_def)

lemma unionBranch_mem: "unionBranch u key = Some t \<Longrightarrow> t \<in> set (types u)"
  by (auto simp: unionBranch_def find_Some_iff)

lemma onUnionBranch_cong:
  assumes "\<And>bt x q. bt \<in> set (types u) \<Longrightarrow> rec x bt q = rec' x bt q"
  shows "onUnionBranch C c rec any u p = onUnionBranch C c rec' any u p"
  using assms unionBranch_mem [of u]
  by (auto simp: onUnionBranch_def split: list.splits option.splits)

lemma onUnion_cong [fundef_cong]:
  assumes "any = any'" "u = u'" "p = p'"
    and "\<And>bt x q. bt \<in> set (types u') \<Longrightarrow> rec x bt q = rec' x bt q"
  shows "onUnion C c rec any u p = onUnion C c rec' any' u' p'"
  using assms onUnionBranch_cong [of u' rec rec' C c _ p']
  by (simp add: onUnion_def split: list.splits option.splits)

text \<open>\<^verbatim>\<open>Cloner.prototype.clone\<close>. Every \<open>avtype\<close> is a type, so the check of line 124
  always passes.\<close>

function clone :: "caps \<Rightarrow> cloner \<Rightarrow> jsval \<Rightarrow> avtype \<Rightarrow> path \<Rightarrow> exn + builder" where
  "clone C c any (ArrayT t) p = onArray C (\<lambda>x ty q. clone C c x ty q) any (ArrayT t) p"
| "clone C c any (MapT t) p = onMap C (\<lambda>x ty q. clone C c x ty q) any (MapT t) p"
| "clone C c any (RecordT e n fs) p =
     onRecord C c (\<lambda>x ty q. clone C c x ty q) any (RecordT e n fs) p"
| "clone C c any (UnionT w ts) p =
     onUnion C c (\<lambda>x ty q. clone C c x ty q) any (UnionT w ts) p"
| "clone C c any (LogicalT n t) p =
     onLogical C c (\<lambda>x ty q. clone C c x ty q) any (LogicalT n t) p"
| "clone C c any (PrimT k) p = onPrimitive C c any (PrimT k) p"
| "clone C c any BytesT p = onPrimitive C c any BytesT p"
| "clone C c any (FixedT n) p = onPrimitive C c any (FixedT n) p"
  by pat_completeness auto
termination
proof (relation "measure (\<lambda>(C, c, any, t, p). size t)")
  show "wf (measure (\<lambda>(C, c, any, t, p). size t))" by simp
next
  fix C c any e n fs p fld x q
  assume "fld \<in> set (recordFields (RecordT e n fs))"
  then have "size fld < Suc (size_list size fs)"
    by (simp add: size_list_estimation' less_Suc_eq_le)
  moreover have "size (fieldType fld) < size fld" by (cases fld) simp
  ultimately show "((C, c, x, fieldType fld, q), (C, c, any, RecordT e n fs, p))
      \<in> measure (\<lambda>(C, c, any, t, p). size t)"
    by simp
next
  fix C c any w ts p bt x q
  assume "bt \<in> set (types (UnionT w ts))"
  then have "size bt < Suc (size_list size ts)"
    by (simp add: size_list_estimation' less_Suc_eq_le)
  then show "((C, c, x, bt, q), (C, c, any, UnionT w ts, p))
      \<in> measure (\<lambda>(C, c, any, t, p). size t)"
    by simp
qed simp_all

text \<open>The shared body of the three entry points (line 55).\<close>

definition cloneEntry :: "caps \<Rightarrow> mode \<Rightarrow> jsval \<Rightarrow> avtype \<Rightarrow> opts \<Rightarrow> exn + jsval" where
  "cloneEntry C m any t os =
     (case Cloner m os of
        Inl e \<Rightarrow> Inl e
      | Inr c \<Rightarrow>
          (case clone C c any t [] of
             Inl e \<Rightarrow> Inl e
           | Inr builder \<Rightarrow> build builder t))"

definition fromJSON :: "caps \<Rightarrow> jsval \<Rightarrow> avtype \<Rightarrow> opts \<Rightarrow> exn + jsval" where
  "fromJSON C any t os = cloneEntry C FROM_JSON any t os"

definition fromDefaultJSON :: "caps \<Rightarrow> jsval \<Rightarrow> avtype \<Rightarrow> opts \<Rightarrow> exn + jsval" where
  "fromDefaultJSON C any t os = cloneEntry C FROM_DEFAULT_JSON any t os"

definition toJSON :: "caps \<Rightarrow> jsval \<Rightarrow> avtype \<Rightarrow> opts \<Rightarrow> exn + jsval" where
  "toJSON C any t os = cloneEntry C TO_JSON any t os"

section \<open>A sample type model\<close>

text \<open>A small instance of the capabilities, on which the examples below run: the
  validity of \<^verbatim>\<open>null\<close>, \<^verbatim>\<open>int\<close>, \<^verbatim>\<open>string\<close> and \<^verbatim>\<open>bytes\<close>, comparison by equality,
  branch resolution by validity, identity hooks, and a record constructor that pairs the
  field names with the values it is given.\<close>

fun sampleIsValid :: "avtype \<Rightarrow> jsval \<Rightarrow> bool" where
  "sampleIsValid (PrimT PNull) Null = True"
| "sampleIsValid (PrimT PInt) (Num n) = True"
| "sampleIsValid (PrimT PString) (Str s) = True"
| "sampleIsValid BytesT (Buf b) = True"
| "sampleIsValid t v = False"

fun sampleStringify :: "jsval \<Rightarrow> string" where
  "sampleStringify Null = ''null''"
| "sampleStringify (Num n) = (if n < 0 then ''-'' else []) @ showNat (nat \<bar>n\<bar>)"
| "sampleStringify (Str s) = [CHR 0x22] @ s @ [CHR 0x22]"
| "sampleStringify v = ''...''"

definition sampleCaps :: caps where
  "sampleCaps = \<lparr>
     isValid = sampleIsValid,
     compare = (\<lambda>t a b. if a = b then 0 else 1),
     branchType = (\<lambda>u v. find (\<lambda>t. sampleIsValid t v) (types u)),
     toValue = (\<lambda>t v. Inr v),
     fromValue = (\<lambda>t v. Inr v),
     recordConstructor = (\<lambda>t args. Obj (zip (map fieldName (recordFields t)) args)),
     bufferFromOther = (\<lambda>v. Inl TypeError),
     stringify = sampleStringify,
     formatKeys = join '','',
     isNaNString = (\<lambda>k. True) \<rparr>"

definition encoder :: cloner where
  "encoder = \<lparr> mode = TO_JSON, allowUndeclaredFields = False, omitDefaultValues = False \<rparr>"

definition omittingEncoder :: cloner where
  "omittingEncoder = \<lparr> mode = TO_JSON, allowUndeclaredFields = False, omitDefaultValues = True \<rparr>"

definition decoder :: cloner where
  "decoder = \<lparr> mode = FROM_JSON, allowUndeclaredFields = False, omitDefaultValues = False \<rparr>"

definition defaultDecoder :: cloner where
  "defaultDecoder =
     \<lparr> mode = FROM_DEFAULT_JSON, allowUndeclaredFields = False, omitDefaultValues = False \<rparr>"

definition sampleRecord :: avtype where
  "sampleRecord =
     RecordT False ''R''
       [Field ''a'' (PrimT PInt) Undefined, Field ''b'' (ArrayT (PrimT PInt)) Undefined]"


definition badDefaultRecord :: avtype where
  "badDefaultRecord = RecordT False ''B'' [Field ''a'' (PrimT PInt) (Str ''bad'')]"

definition bufferRecord :: avtype where
  "bufferRecord =
     RecordT False ''P'' [Field ''a'' (PrimT PInt) Undefined, Field ''b'' BytesT Undefined]"

definition noOpts :: opts where
  "noOpts = \<lparr> optAllowUndeclaredFields = False, optOmitDefaultValues = False \<rparr>"

section \<open>Notions used in the statements\<close>

text \<open>The errors and the value of a call that returned a builder (nothing for a call
  that threw).\<close>

definition errorsOf :: "exn + builder \<Rightarrow> valueError list" where
  "errorsOf r = (case r of Inl e \<Rightarrow> [] | Inr b \<Rightarrow> errors b)"

definition valueOf :: "exn + builder \<Rightarrow> jsval" where
  "valueOf r = (case r of Inl e \<Rightarrow> Undefined | Inr b \<Rightarrow> value b)"

text \<open>The test of lines 203 and 308, read positively: \<^verbatim>\<open>any && typeof any == 'object'\<close>.\<close>

definition objectLike :: "jsval \<Rightarrow> bool" where
  "objectLike any = (truthy any \<and> typeof any = ''object'')"

text \<open>Every error of the list lies at the path \<open>p\<close> or below it.\<close>

definition errorsUnder :: "path \<Rightarrow> valueError list \<Rightarrow> bool" where
  "errorsUnder p es = (\<forall>e \<in> set es. prefix p (errPath e))"

text \<open>The fields whose value the input holds, and the call \<^verbatim>\<open>_onRecord\<close> makes for such
  a field (line 243).\<close>

definition presentFields :: "jsval \<Rightarrow> field list \<Rightarrow> field list" where
  "presentFields any flds = filter (\<lambda>fld. getProp any (fieldName fld) \<noteq> Undefined) flds"

definition fieldResult :: "cloneCall \<Rightarrow> jsval \<Rightarrow> path \<Rightarrow> field \<Rightarrow> exn + builder" where
  "fieldResult rec any p fld =
     rec (getProp any (fieldName fld)) (fieldType fld) (p @ [Key (fieldName fld)])"

text \<open>The two errors a record adds of its own (lines 218 to 224 and 257 to 264), and the
  names pushed on \<^verbatim>\<open>missingFields\<close>.\<close>

definition undeclaredErrors :: "caps \<Rightarrow> cloner \<Rightarrow> jsval \<Rightarrow> avtype \<Rightarrow> path \<Rightarrow> valueError list" where
  "undeclaredErrors C c any t p =
     (if \<not> allowUndeclaredFields c \<and> extraFields t any \<noteq> []
      then [newValueError C
              (''contains '' @ showNat (length (extraFields t any)) @ '' undeclared field(s) (''
                 @ join '', '' (extraFields t any) @ '')'') any t p]
      else [])"

definition missingNames :: "jsval \<Rightarrow> field list \<Rightarrow> string list" where
  "missingNames any flds =
     map fieldName
       (filter (\<lambda>fld. getProp any (fieldName fld) = Undefined \<and> defaultValue fld = Undefined) flds)"

definition missingErrors :: "caps \<Rightarrow> jsval \<Rightarrow> avtype \<Rightarrow> path \<Rightarrow> valueError list" where
  "missingErrors C any t p =
     (if missingNames any (recordFields t) \<noteq> []
      then [newValueError C
              (''is missing '' @ showNat (length (missingNames any (recordFields t)))
                 @ '' field(s) ('' @ join '','' (missingNames any (recordFields t)) @ '')'') any t p]
      else [])"


text \<open>\<^verbatim>\<open>_onRecord\<close> before its loop over the fields (lines 207 to 225) and after it
  (lines 257 to 279).\<close>

definition recordStart :: "caps \<Rightarrow> cloner \<Rightarrow> jsval \<Rightarrow> avtype \<Rightarrow> path \<Rightarrow> builder" where
  "recordStart C c any t p =
     (if \<not> allowUndeclaredFields c \<and> extraFields t any \<noteq> []
      then addError C newBuilder
             (''contains '' @ showNat (length (extraFields t any)) @ '' undeclared field(s) (''
                @ join '', '' (extraFields t any) @ '')'') any t p
      else newBuilder)"

definition recordFinish ::
  "caps \<Rightarrow> cloner \<Rightarrow> jsval \<Rightarrow> avtype \<Rightarrow> path \<Rightarrow> builder \<times> string list \<times> jsval list \<Rightarrow> builder" where
  "recordFinish C c any t p st =
     (case st of (builder1, missingFields, args) \<Rightarrow>
        let builder2 =
              (if missingFields \<noteq> []
               then addError C builder1
                      (''is missing '' @ showNat (length missingFields) @ '' field(s) (''
                         @ join '','' missingFields @ '')'') any t p
               else builder1)
        in if isOk builder2
           then (if mode c = TO_JSON
                 then builder2\<lparr> value := Obj (putFields (recordFields t) args []) \<rparr>
                 else builder2\<lparr> value := recordConstructor C t args \<rparr>)
           else builder2)"

text \<open>\<^verbatim>\<open>_onUnion\<close> after the branch has been cloned (lines 383 to 394).\<close>

definition unionFinish :: "cloner \<Rightarrow> avtype \<Rightarrow> avtype \<Rightarrow> builder \<Rightarrow> builder" where
  "unionFinish c unionType branch branchBuilder =
     (let builder = copyErrorsFrom newBuilder branchBuilder in
      if isOk branchBuilder
      then (if mode c = TO_JSON
            then builder\<lparr> value := Obj [(branchName branch, value branchBuilder)] \<rparr>
            else if typeName unionType \<noteq> ''union:wrapped''
            then builder\<lparr> value := value branchBuilder \<rparr>
            else builder\<lparr> value := wrap branch (value branchBuilder) \<rparr>)
      else builder)"

subsection \<open>Structural equality\<close>

text \<open>A property that \<open>lookupOr\<close> finds is smaller than the object it is found in.\<close>

lemma map_of_size:
  "map_of kvs k = Some v \<Longrightarrow> size v < Suc (size_list (size_prod (\<lambda>_. 0) size) kvs)"
proof -
  assume "map_of kvs k = Some v"
  then have "(k, v) \<in> set kvs" by (rule map_of_SomeD)
  then have "size_prod (\<lambda>_. 0) size (k, v) \<le> size_list (size_prod (\<lambda>_. 0) size) kvs"
    by (rule size_list_estimation') simp
  then show ?thesis by simp
qed

lemma lookupOr_size:
  "k \<in> set (map fst kvs) \<Longrightarrow> size (lookupOr kvs k) < Suc (size_list (size_prod (\<lambda>_. 0) size) kvs)"
proof -
  assume "k \<in> set (map fst kvs)"
  then obtain v where "map_of kvs k = Some v"
    by (cases "map_of kvs k") (auto simp: map_of_eq_None_iff)
  then show ?thesis using map_of_size [of kvs k v] by (simp add: lookupOr_def)
qed

text \<open>Structural equality of two values: arrays agree item by item, objects have the
  same own keys and agree under every key, whatever the order of the keys, and every
  other value agrees with itself only.\<close>

function (sequential) jeq :: "jsval \<Rightarrow> jsval \<Rightarrow> bool" where
  "jeq (Arr xs) (Arr ys) = list_all2 jeq xs ys"
| "jeq (Obj a) (Obj b) =
     (set (map fst a) = set (map fst b)
      \<and> (\<forall>k \<in> set (map fst a). jeq (lookupOr a k) (lookupOr b k)))"
| "jeq (Boxed a) (Boxed b) = jeq a b"
| "jeq a b = (a = b)"
  by pat_completeness auto
termination
proof (relation "measure (\<lambda>(a, b). size a)")
  fix a b :: "(string \<times> jsval) list" and k
  assume "k \<in> set (map fst a)"
  then show "((lookupOr a k, lookupOr b k), (Obj a, Obj b)) \<in> measure (\<lambda>(a, b). size a)"
    using lookupOr_size [of k a] by simp
next
  fix xs ys :: "jsval list" and x y
  assume "x \<in> set xs"
  then show "((x, y), (Arr xs, Arr ys)) \<in> measure (\<lambda>(a, b). size a)"
    by (simp add: size_list_estimation' less_Suc_eq_le)
qed simp_all

section \<open>Basic facts\<close>

lemma typeName_null_iff: "typeName t = ''null'' \<longleftrightarrow> t = PrimT PNull"
proof (cases t)
  case (PrimT k)
  then show ?thesis by (cases k) simp_all
qed simp_all

lemma hasNullBranch_iff: "hasNullBranch ts \<longleftrightarrow> PrimT PNull \<in> set ts"
  by (induction ts) (auto simp: typeName_null_iff)

section \<open>Cloner options\<close>

text \<open>
  Claim C5. \<^verbatim>\<open>omitDefaultValues\<close> is accepted under \<^verbatim>\<open>TO_JSON\<close> only. Whatever the value,
  the type and the type model, \<^verbatim>\<open>fromJSON\<close> and \<^verbatim>\<open>fromDefaultJSON\<close> called with
  \<^verbatim>\<open>omitDefaultValues\<close> set throw \<^verbatim>\<open>invalid cloner options\<close>; the constructor throws
  that error exactly when the option is set and the mode is not \<^verbatim>\<open>TO_JSON\<close>, and under
  \<^verbatim>\<open>TO_JSON\<close> it returns the cloner.
\<close>

theorem omitDefaultValues_only_TO_JSON:
  "fromJSON C any t (os\<lparr> optOmitDefaultValues := True \<rparr>)
       = Inl (PlainError ''invalid cloner options'')
   \<and> fromDefaultJSON C any t (os\<lparr> optOmitDefaultValues := True \<rparr>)
       = Inl (PlainError ''invalid cloner options'')
   \<and> (Cloner m os = Inl (PlainError ''invalid cloner options'')
        \<longleftrightarrow> optOmitDefaultValues os \<and> m \<noteq> TO_JSON)
   \<and> Cloner TO_JSON os
       = Inr \<lparr> mode = TO_JSON, allowUndeclaredFields = optAllowUndeclaredFields os,
               omitDefaultValues = optOmitDefaultValues os \<rparr>"
  by (simp add: fromJSON_def fromDefaultJSON_def cloneEntry_def Cloner_def)

theorem omitDefaultValues_only_TO_JSON_witness:
  "fromJSON sampleCaps (Num 1) (PrimT PInt)
       \<lparr> optAllowUndeclaredFields = False, optOmitDefaultValues = True \<rparr>
       = Inl (PlainError ''invalid cloner options'')
   \<and> fromDefaultJSON sampleCaps (Num 1) (PrimT PInt)
       \<lparr> optAllowUndeclaredFields = False, optOmitDefaultValues = True \<rparr>
       = Inl (PlainError ''invalid cloner options'')
   \<and> Cloner TO_JSON \<lparr> optAllowUndeclaredFields = False, optOmitDefaultValues = True \<rparr>
       = Inr omittingEncoder"
  using omitDefaultValues_only_TO_JSON [of sampleCaps "Num 1" "PrimT PInt" noOpts TO_JSON]
    omitDefaultValues_only_TO_JSON [of sampleCaps "Num 1" "PrimT PInt"
      "\<lparr> optAllowUndeclaredFields = False, optOmitDefaultValues = True \<rparr>" TO_JSON]
  by (simp add: noOpts_def omittingEncoder_def)

section \<open>Unions\<close>

text \<open>
  Claim C7. In every mode, \<^verbatim>\<open>null\<close> against a union gives the builder whose value is
  \<^verbatim>\<open>null\<close> and which has no error when the null type is one of the branches, and the
  builder with the one error \<^verbatim>\<open>is null\<close> otherwise. The first builder is ok, the second
  is not, and the result does not depend on the recursive call \<open>rec\<close> handed to
  \<^verbatim>\<open>_onUnion\<close>: no branch is entered.
\<close>

theorem union_null_input:
  "clone C c Null (UnionT w ts) p =
     Inr (if PrimT PNull \<in> set ts then newBuilder\<lparr> value := Null \<rparr>
          else addError C newBuilder ''is null'' Null (UnionT w ts) p)
   \<and> onUnion C c rec Null (UnionT w ts) p = clone C c Null (UnionT w ts) p
   \<and> isOk (newBuilder\<lparr> value := Null \<rparr>)
   \<and> \<not> isOk (addError C newBuilder ''is null'' Null (UnionT w ts) p)"
  by (simp add: onUnion_def hasNullBranch_iff isOk_def newBuilder_def addError_def)

theorem union_null_input_witness:
  "clone sampleCaps decoder Null (UnionT False [PrimT PNull, PrimT PString]) []
     = Inr \<lparr> value = Null, errors = [] \<rparr>
   \<and> clone sampleCaps decoder Null (UnionT False [PrimT PInt, PrimT PString]) []
     = Inr \<lparr> value = Undefined,
             errors = [\<lparr> message = ''$ has a type among int, string but is null: null'',
                         errValue = Null,
                         expectedType = UnionT False [PrimT PInt, PrimT PString],
                         errPath = [] \<rparr>] \<rparr>"
  using union_null_input [of sampleCaps decoder False "[PrimT PNull, PrimT PString]" "[]"]
    union_null_input [of sampleCaps decoder False "[PrimT PInt, PrimT PString]" "[]"]
  by (simp add: newBuilder_def addError_def newValueError_def typeInfo_def sampleCaps_def)

text \<open>
  Claim C8. Under \<^verbatim>\<open>FROM_DEFAULT_JSON\<close>, an input other than \<^verbatim>\<open>null\<close> against a union
  whose first branch is \<open>b\<close> is decoded with \<open>b\<close>, whatever the input is: when \<open>b\<close> is the
  null type the result is the one error \<^verbatim>\<open>does not match first (null)\<close> and no value;
  otherwise the input is cloned against \<open>b\<close> under the path extended by the name of \<open>b\<close>,
  and the builder carries the errors of that call or, when there are none, its value
  (wrapped under \<open>b\<close> for a wrapped union).
\<close>

theorem fromDefaultJSON_first_branch:
  assumes "mode c = FROM_DEFAULT_JSON" and "any \<noteq> Null"
  shows "clone C c any (UnionT w (b # bs)) p =
     (if b = PrimT PNull
      then Inr (addError C newBuilder ''does not match first (null)'' any (UnionT w (b # bs)) p)
      else (case clone C c any b (p @ [Key (branchName b)]) of
              Inl e \<Rightarrow> Inl e
            | Inr bb \<Rightarrow>
                Inr (if isOk bb
                     then \<lparr> value = (if w then wrap b (value bb) else value bb), errors = [] \<rparr>
                     else \<lparr> value = Undefined, errors = errors bb \<rparr>)))"
  using assms
  by (auto simp: onUnion_def onUnionBranch_def typeName_null_iff wrap_def unionBranch_def
      lookupOr_def copyErrorsFrom_def newBuilder_def isOk_def split: sum.splits)

theorem fromDefaultJSON_first_branch_witness:
  "mode defaultDecoder = FROM_DEFAULT_JSON \<and> Str ''7'' \<noteq> Null
   \<and> clone sampleCaps defaultDecoder (Str ''7'') (UnionT False [PrimT PInt, PrimT PString]) []
     = Inr \<lparr> value = Undefined,
             errors = [\<lparr> message = ''$.int has type int but invalid value: '' @ [CHR 0x22] @ ''7''
                                     @ [CHR 0x22],
                         errValue = Str ''7'', expectedType = PrimT PInt,
                         errPath = [Key ''int''] \<rparr>] \<rparr>
   \<and> clone sampleCaps defaultDecoder (Num 7) (UnionT False [PrimT PNull, PrimT PInt]) []
     = Inr \<lparr> value = Undefined,
             errors = [\<lparr> message = ''$ has a type among null, int but does not match first (null): 7'',
                         errValue = Num 7,
                         expectedType = UnionT False [PrimT PNull, PrimT PInt],
                         errPath = [] \<rparr>] \<rparr>"
  using fromDefaultJSON_first_branch [of defaultDecoder "Str ''7''" sampleCaps False
      "PrimT PInt" "[PrimT PString]" "[]"]
    fromDefaultJSON_first_branch [of defaultDecoder "Num 7" sampleCaps False
      "PrimT PNull" "[PrimT PInt]" "[]"]
  by (simp add: defaultDecoder_def sampleCaps_def onPrimitive_def checkPrimitive_def
      isBufferType_def addError_def newValueError_def newBuilder_def isOk_def typeInfo_def
      showNat.simps)

section \<open>Primitives and buffers\<close>

text \<open>
  Claim C2 (the code departs from it). Under \<^verbatim>\<open>TO_JSON\<close>, a value that the validity
  predicate of a \<^verbatim>\<open>bytes\<close> or \<^verbatim>\<open>fixed\<close> type rejects makes \<^verbatim>\<open>clone\<close> throw a
  \<^verbatim>\<open>TypeError\<close>: line 192 adds the error \<^verbatim>\<open>invalid value\<close>, and line 195 then reads
  \<^verbatim>\<open>toString\<close> of the builder's value, which is still \<^verbatim>\<open>undefined\<close>. No builder is
  returned, so the entry point does not reach \<^verbatim>\<open>build\<close>.
\<close>

theorem toJSON_invalid_buffer_throws:
  assumes "mode c = TO_JSON" and "isBufferType t" and "\<not> isValid C t any"
  shows "clone C c any t p = Inl TypeError"
  using assms
  by (cases t) (simp_all add: isBufferType_def onPrimitive_def checkPrimitive_def
      toStringBinary_def addError_def newBuilder_def)

theorem toJSON_invalid_buffer_throws_witness:
  "mode encoder = TO_JSON \<and> isBufferType BytesT \<and> \<not> isValid sampleCaps BytesT (Num 42)
   \<and> clone sampleCaps encoder (Num 42) BytesT [] = Inl TypeError
   \<and> toJSON sampleCaps (Num 42) BytesT noOpts = Inl TypeError"
  using toJSON_invalid_buffer_throws [of encoder BytesT sampleCaps "Num 42" "[]"]
  by (simp add: encoder_def isBufferType_def sampleCaps_def toJSON_def cloneEntry_def
      Cloner_def noOpts_def)

section \<open>Accumulation of errors\<close>

lemma errorsOf_Inr [simp]: "errorsOf (Inr b) = errors b"
  by (simp add: errorsOf_def)

lemma valueOf_Inr [simp]: "valueOf (Inr b) = value b"
  by (simp add: valueOf_def)

lemma errors_copyErrorsFrom [simp]: "errors (copyErrorsFrom b other) = errors b @ errors other"
  by (simp add: copyErrorsFrom_def)

lemma value_copyErrorsFrom [simp]: "value (copyErrorsFrom b other) = value b"
  by (simp add: copyErrorsFrom_def)

lemma errors_addError [simp]:
  "errors (addError C b desc v t p) = errors b @ [newValueError C desc v t p]"
  by (simp add: addError_def)

lemma value_addError [simp]: "value (addError C b desc v t p) = value b"
  by (simp add: addError_def)

lemma errors_newBuilder [simp]: "errors newBuilder = []"
  by (simp add: newBuilder_def)

lemma value_newBuilder [simp]: "value newBuilder = Undefined"
  by (simp add: newBuilder_def)

lemma errPath_newValueError [simp]: "errPath (newValueError C desc v t p) = p"
  by (simp add: newValueError_def)

lemma onArrayItems_errors:
  "onArrayItems rec p i xs (b0, v0) = Inr (b, v) \<Longrightarrow>
     errors b = errors b0 @ concat (map (\<lambda>(j, x). errorsOf (rec x (p @ [Index j]))) (enumerate i xs))"
proof (induction xs arbitrary: i b0 v0)
  case Nil
  then show ?case by simp
next
  case (Cons x xs)
  then show ?case
    by (cases "rec x (p @ [Index i])") (auto simp: Let_def)
qed

lemma onArrayItems_values:
  "onArrayItems rec p i xs (b0, v0) = Inr (b, v) \<Longrightarrow> isOk b \<Longrightarrow>
     v = v0 @ map (\<lambda>(j, x). valueOf (rec x (p @ [Index j]))) (enumerate i xs)"
proof (induction xs arbitrary: i b0 v0)
  case Nil
  then show ?case by simp
next
  case (Cons x xs)
  show ?case
  proof (cases "rec x (p @ [Index i])")
    case (Inl e)
    with Cons.prems show ?thesis by simp
  next
    case (Inr ib)
    let ?b' = "copyErrorsFrom b0 ib"
    from Cons.prems(1) Inr
    have step: "onArrayItems rec p (Suc i) xs (?b', if isOk ?b' then v0 @ [value ib] else v0) = Inr (b, v)"
      by (simp add: Let_def)
    from onArrayItems_errors [OF step] Cons.prems(2) have "isOk ?b'"
      by (simp add: isOk_def)
    with step Cons.IH [of "Suc i" ?b' "v0 @ [value ib]"] Cons.prems(2) Inr show ?thesis
      by simp
  qed
qed

lemma onMapKeys_errors:
  "onMapKeys rec any p ks (b0, v0) = Inr (b, v) \<Longrightarrow>
     errors b = errors b0 @ concat (map (\<lambda>k. errorsOf (rec (getProp any k) (p @ [Key k]))) ks)"
proof (induction ks arbitrary: b0 v0)
  case Nil
  then show ?case by simp
next
  case (Cons k ks)
  then show ?case
    by (cases "rec (getProp any k) (p @ [Key k])") (auto simp: Let_def)
qed

lemma onField_errors:
  "onField C c rec any p fld (b0, m0, a0) = Inr (b, m, a) \<Longrightarrow>
     errors b = errors b0 @
       (if getProp any (fieldName fld) \<noteq> Undefined then errorsOf (fieldResult rec any p fld) else [])"
  by (auto simp: onField_def Let_def fieldResult_def split: if_splits sum.splits)

lemma onFields_errors:
  "onFields C c rec any p flds (b0, m0, a0) = Inr (b, m, a) \<Longrightarrow>
     errors b = errors b0 @ concat (map (\<lambda>fld. errorsOf (fieldResult rec any p fld)) (presentFields any flds))"
proof (induction flds arbitrary: b0 m0 a0)
  case Nil
  then show ?case by (simp add: presentFields_def)
next
  case (Cons fld flds)
  show ?case
  proof (cases "onField C c rec any p fld (b0, m0, a0)")
    case (Inl e)
    with Cons.prems show ?thesis by simp
  next
    case (Inr st)
    obtain b1 m1 a1 where st: "st = (b1, m1, a1)" by (cases st)
    from Cons.prems Inr st have "onFields C c rec any p flds (b1, m1, a1) = Inr (b, m, a)"
      by simp
    from Cons.IH [OF this] onField_errors [of C c rec any p fld b0 m0 a0 b1 m1 a1] Inr st
    show ?thesis by (simp add: presentFields_def)
  qed
qed

lemma errorsUnder_Nil [simp]: "errorsUnder p []"
  by (simp add: errorsUnder_def)

lemma errorsUnder_append [simp]: "errorsUnder p (es @ es') \<longleftrightarrow> errorsUnder p es \<and> errorsUnder p es'"
  by (auto simp: errorsUnder_def)

lemma errorsUnder_single [simp]: "errorsUnder p [newValueError C desc v t p]"
  by (simp add: errorsUnder_def)

lemma errorsUnder_step: "errorsUnder (p @ [s]) es \<Longrightarrow> errorsUnder p es"
  by (auto simp: errorsUnder_def dest: append_prefixD)

lemma errorsUnder_concat:
  "(\<And>x. x \<in> set xs \<Longrightarrow> errorsUnder p (f x)) \<Longrightarrow> errorsUnder p (concat (map f xs))"
  by (induction xs) auto

lemma errorsUnder_errorsOf:
  "(\<And>b. r = Inr b \<Longrightarrow> errorsUnder p (errors b)) \<Longrightarrow> errorsUnder p (errorsOf r)"
  by (cases r) (simp_all add: errorsOf_def)

lemma onArray_Arr:
  "onArray C rec (Arr xs) t p =
     (case onArrayItems (\<lambda>x q. rec x (itemsType t) q) p 0 xs (newBuilder, []) of
        Inl e \<Rightarrow> Inl e
      | Inr (builder, val) \<Rightarrow> Inr (if isOk builder then builder\<lparr> value := Arr val \<rparr> else builder))"
  by (simp add: onArray_def)

lemma onArray_other:
  "(\<And>xs. any \<noteq> Arr xs) \<Longrightarrow> onArray C rec any t p = Inr (addError C newBuilder ''is not an array'' any t p)"
  by (cases any) (auto simp: onArray_def)

lemma onMap_objectLike:
  "objectLike any \<Longrightarrow> onMap C rec any t p =
     (case onMapKeys (\<lambda>x q. rec x (valuesType t) q) any p (sort (objectKeys any)) (newBuilder, []) of
        Inl e \<Rightarrow> Inl e
      | Inr (builder, val) \<Rightarrow> Inr (if isOk builder then builder\<lparr> value := Obj val \<rparr> else builder))"
  by (simp add: onMap_def objectLike_def)

lemma onMap_other:
  "\<not> objectLike any \<Longrightarrow> onMap C rec any t p = Inr (addError C newBuilder ''is not a valid object'' any t p)"
  by (simp add: onMap_def objectLike_def)

lemma onArray_errorsUnder:
  assumes IH: "\<And>x q b'. rec x (itemsType t) q = Inr b' \<Longrightarrow> errorsUnder q (errors b')"
    and res: "onArray C rec any t p = Inr b"
  shows "errorsUnder p (errors b)"
proof (cases "\<exists>xs. any = Arr xs")
  case True
  then obtain xs where any: "any = Arr xs" by blast
  show ?thesis
  proof (cases "onArrayItems (\<lambda>x q. rec x (itemsType t) q) p 0 xs (newBuilder, [])")
    case (Inl e)
    with res show ?thesis by (simp add: any onArray_Arr)
  next
    case (Inr st)
    obtain b' v where st: "st = (b', v)" by (cases st)
    from res Inr st have b: "errors b = errors b'"
      by (cases "isOk b'") (auto simp: any onArray_Arr)
    have "errorsUnder p (errorsOf (rec x (itemsType t) (p @ [Index j])))" for x j
      by (rule errorsUnder_step [of p "Index j"], rule errorsUnder_errorsOf) (rule IH)
    then have "errorsUnder p (concat (map (\<lambda>(j, x). errorsOf (rec x (itemsType t) (p @ [Index j]))) (enumerate 0 xs)))"
      by (intro errorsUnder_concat) auto
    then show ?thesis
      using onArrayItems_errors [of "\<lambda>x q. rec x (itemsType t) q" p 0 xs newBuilder "[]" b' v] Inr st b
      by simp
  qed
next
  case False
  then show ?thesis using res by (auto simp: onArray_other)
qed

lemma onMap_errorsUnder:
  assumes IH: "\<And>x q b'. rec x (valuesType t) q = Inr b' \<Longrightarrow> errorsUnder q (errors b')"
    and res: "onMap C rec any t p = Inr b"
  shows "errorsUnder p (errors b)"
proof (cases "objectLike any")
  case True
  show ?thesis
  proof (cases "onMapKeys (\<lambda>x q. rec x (valuesType t) q) any p (sort (objectKeys any)) (newBuilder, [])")
    case (Inl e)
    with res show ?thesis by (simp add: onMap_objectLike [OF True])
  next
    case (Inr st)
    obtain b' v where st: "st = (b', v)" by (cases st)
    from res Inr st have b: "errors b = errors b'"
      by (cases "isOk b'") (auto simp: onMap_objectLike [OF True])
    have "errorsUnder p (errorsOf (rec x (valuesType t) (p @ [Key k])))" for x k
      by (rule errorsUnder_step [of p "Key k"], rule errorsUnder_errorsOf) (rule IH)
    then have "errorsUnder p (concat (map (\<lambda>k. errorsOf (rec (getProp any k) (valuesType t) (p @ [Key k])))
        (sort (objectKeys any))))"
      by (intro errorsUnder_concat) auto
    then show ?thesis
      using onMapKeys_errors [of "\<lambda>x q. rec x (valuesType t) q" any p "sort (objectKeys any)"
          newBuilder "[]" b' v] Inr st b
      by simp
  qed
next
  case False
  then show ?thesis using res by (auto simp: onMap_other)
qed

lemma onField_missing:
  "onField C c rec any p fld (b0, m0, a0) = Inr (b, m, a) \<Longrightarrow>
     m = m0 @ missingNames any [fld] \<and> length a = Suc (length a0)"
  by (auto simp: onField_def Let_def missingNames_def split: if_splits sum.splits)

lemma onFields_missing:
  "onFields C c rec any p flds (b0, m0, a0) = Inr (b, m, a) \<Longrightarrow>
     m = m0 @ missingNames any flds \<and> length a = length a0 + length flds"
proof (induction flds arbitrary: b0 m0 a0)
  case Nil
  then show ?case by (simp add: missingNames_def)
next
  case (Cons fld flds)
  show ?case
  proof (cases "onField C c rec any p fld (b0, m0, a0)")
    case (Inl e)
    with Cons.prems show ?thesis by simp
  next
    case (Inr st)
    obtain b1 m1 a1 where st: "st = (b1, m1, a1)" by (cases st)
    from Cons.prems Inr st have "onFields C c rec any p flds (b1, m1, a1) = Inr (b, m, a)"
      by simp
    from Cons.IH [OF this] onField_missing [of C c rec any p fld b0 m0 a0 b1 m1 a1] Inr st
    show ?thesis by (simp add: missingNames_def)
  qed
qed

lemma onRecord_other:
  "\<not> objectLike any \<Longrightarrow>
     onRecord C c rec any t p = Inr (addError C newBuilder ''is not a valid object'' any t p)"
  by (simp add: onRecord_def objectLike_def)

lemma onRecord_objectLike:
  "objectLike any \<Longrightarrow>
     onRecord C c rec any t p =
       (case onFields C c rec any p (recordFields t) (recordStart C c any t p, [], []) of
          Inl e \<Rightarrow> Inl e
        | Inr st \<Rightarrow> Inr (recordFinish C c any t p st))"
  by (simp add: onRecord_def objectLike_def recordStart_def recordFinish_def Let_def
      split: sum.splits prod.splits)

lemma errors_recordStart: "errors (recordStart C c any t p) = undeclaredErrors C c any t p"
  by (simp add: recordStart_def undeclaredErrors_def)

lemma errors_recordFinish:
  "errors (recordFinish C c any t p (b1, missingNames any (recordFields t), a))
     = errors b1 @ missingErrors C any t p"
  by (simp add: recordFinish_def missingErrors_def Let_def)

lemma onRecord_errors:
  assumes obj: "objectLike any" and res: "onRecord C c rec any t p = Inr b"
  shows "errors b = undeclaredErrors C c any t p
           @ concat (map (\<lambda>fld. errorsOf (fieldResult rec any p fld)) (presentFields any (recordFields t)))
           @ missingErrors C any t p"
proof (cases "onFields C c rec any p (recordFields t) (recordStart C c any t p, [], [])")
  case (Inl e)
  with res show ?thesis by (simp add: onRecord_objectLike [OF obj])
next
  case (Inr st)
  obtain b1 m a where st: "st = (b1, m, a)" by (cases st)
  have m: "m = missingNames any (recordFields t)"
    using onFields_missing [of C c rec any p "recordFields t" _ "[]" "[]" b1 m a] Inr st by simp
  have b1: "errors b1 = undeclaredErrors C c any t p
      @ concat (map (\<lambda>fld. errorsOf (fieldResult rec any p fld)) (presentFields any (recordFields t)))"
    using onFields_errors [of C c rec any p "recordFields t" _ "[]" "[]" b1 m a] Inr st
    by (simp add: errors_recordStart)
  have "b = recordFinish C c any t p (b1, m, a)"
    using res Inr st by (simp add: onRecord_objectLike [OF obj])
  then show ?thesis using errors_recordFinish [of C c any t p b1 a] b1 m by simp
qed

lemma errorsUnder_undeclaredErrors [simp]: "errorsUnder p (undeclaredErrors C c any t p)"
  by (simp add: undeclaredErrors_def)

lemma errorsUnder_missingErrors [simp]: "errorsUnder p (missingErrors C any t p)"
  by (simp add: missingErrors_def)

lemma onRecord_errorsUnder:
  assumes IH: "\<And>fld x q b'. fld \<in> set (recordFields t) \<Longrightarrow> rec x (fieldType fld) q = Inr b'
                 \<Longrightarrow> errorsUnder q (errors b')"
    and res: "onRecord C c rec any t p = Inr b"
  shows "errorsUnder p (errors b)"
proof (cases "objectLike any")
  case True
  have "errorsUnder p (errorsOf (fieldResult rec any p fld))" if "fld \<in> set (recordFields t)" for fld
    unfolding fieldResult_def
    by (rule errorsUnder_step [of p "Key (fieldName fld)"], rule errorsUnder_errorsOf)
      (rule IH [OF that])
  then have "errorsUnder p (concat (map (\<lambda>fld. errorsOf (fieldResult rec any p fld))
      (presentFields any (recordFields t))))"
    by (intro errorsUnder_concat) (simp add: presentFields_def)
  then show ?thesis by (simp add: onRecord_errors [OF True res])
next
  case False
  then show ?thesis using res by (auto simp: onRecord_other)
qed

lemma errors_unionFinish [simp]: "errors (unionFinish c u bt bb) = errors bb"
  by (simp add: unionFinish_def Let_def)

lemma onUnionBranch_single:
  assumes "typeof any = ''object''" and "any \<noteq> Null" and "objectKeys any = [key]"
    and "unionBranch u key = Some bt"
  shows "onUnionBranch C c rec any u p =
     (case rec (getProp any key) bt (p @ [Key key]) of
        Inl e \<Rightarrow> Inl e
      | Inr bb \<Rightarrow> Inr (unionFinish c u bt bb))"
  using assms by (simp add: onUnionBranch_def unionFinish_def Let_def split: sum.splits)

lemma onUnionBranch_cases:
  assumes "onUnionBranch C c rec any u p = Inr b"
  shows "(\<exists>d. b = addError C newBuilder d any u p)
       \<or> (\<exists>key bt bb. unionBranch u key = Some bt \<and> objectKeys any = [key]
             \<and> typeof any = ''object'' \<and> any \<noteq> Null
             \<and> rec (getProp any key) bt (p @ [Key key]) = Inr bb \<and> b = unionFinish c u bt bb)"
proof (cases "typeof any = ''object'' \<and> any \<noteq> Null")
  case False
  with assms show ?thesis by (auto simp: onUnionBranch_def split: if_splits)
next
  case True
  show ?thesis
  proof (cases "objectKeys any")
    case Nil
    with assms True show ?thesis by (auto simp: onUnionBranch_def)
  next
    case (Cons key ks)
    show ?thesis
    proof (cases ks)
      case (Cons k' ks')
      with assms True \<open>objectKeys any = key # ks\<close> show ?thesis
        by (auto simp: onUnionBranch_def)
    next
      case Nil
      with \<open>objectKeys any = key # ks\<close> have keys: "objectKeys any = [key]" by simp
      show ?thesis
      proof (cases "unionBranch u key")
        case None
        with assms True keys show ?thesis by (auto simp: onUnionBranch_def)
      next
        case (Some bt)
        with assms True keys show ?thesis
          by (cases "rec (getProp any key) bt (p @ [Key key])")
            (auto simp: onUnionBranch_single [of any key u bt])
      qed
    qed
  qed
qed

lemma onUnion_cases:
  assumes "onUnion C c rec any u p = Inr b"
  shows "(any = Null \<and> b = (if hasNullBranch (types u) then newBuilder\<lparr> value := Null \<rparr>
                              else addError C newBuilder ''is null'' any u p))
       \<or> (any \<noteq> Null \<and> (\<exists>d. b = addError C newBuilder d any u p))
       \<or> (any \<noteq> Null \<and> (\<exists>any'. onUnionBranch C c rec any' u p = Inr b
             \<and> (any' = any \<or> (\<exists>bt. any' = wrap bt any))))"
proof (cases "any = Null")
  case True
  with assms show ?thesis by (auto simp: onUnion_def split: if_splits)
next
  case False
  show ?thesis
  proof (cases "mode c = FROM_DEFAULT_JSON")
    case True
    with assms False show ?thesis
      by (cases "types u") (auto simp: onUnion_def split: if_splits)
  next
    case fdj: False
    show ?thesis
    proof (cases "mode c = TO_JSON \<and> typeName u \<noteq> ''union:wrapped''")
      case True
      with assms False fdj show ?thesis
        by (cases "branchType C u any") (auto simp: onUnion_def)
    next
      case False
      with assms \<open>any \<noteq> Null\<close> fdj show ?thesis
        by (auto simp: onUnion_def)
    qed
  qed
qed

lemma onUnion_errorsUnder:
  assumes IH: "\<And>bt x q b'. bt \<in> set (types u) \<Longrightarrow> rec x bt q = Inr b' \<Longrightarrow> errorsUnder q (errors b')"
    and res: "onUnion C c rec any u p = Inr b"
  shows "errorsUnder p (errors b)"
proof -
  have branch: "errorsUnder p (errors b)" if "onUnionBranch C c rec any' u p = Inr b" for any'
    using onUnionBranch_cases [OF that]
  proof (elim disjE exE conjE)
    fix d assume "b = addError C newBuilder d any' u p"
    then show ?thesis by simp
  next
    fix key bt bb
    assume "unionBranch u key = Some bt" and "rec (getProp any' key) bt (p @ [Key key]) = Inr bb"
      and b: "b = unionFinish c u bt bb"
    then have "errorsUnder (p @ [Key key]) (errors bb)"
      using IH unionBranch_mem by blast
    then show ?thesis using b by (simp add: errorsUnder_step)
  qed
  from onUnion_cases [OF res] show ?thesis
    by (elim disjE exE conjE) (auto intro: branch)
qed

lemma onLogical_errorsUnder:
  assumes IH: "\<And>x q b'. rec x (underlyingType t) q = Inr b' \<Longrightarrow> errorsUnder q (errors b')"
    and res: "onLogical C c rec any t p = Inr b"
  shows "errorsUnder p (errors b)"
  using res IH
  by (auto simp: onLogical_def isOk_def split: if_splits sum.splits)

lemma checkPrimitive_errorsUnder:
  "checkPrimitive C c any v t p = Inr b \<Longrightarrow> errorsUnder p (errors b)"
  by (auto simp: checkPrimitive_def split: if_splits sum.splits)

lemma onPrimitive_errorsUnder:
  "onPrimitive C c any t p = Inr b \<Longrightarrow> errorsUnder p (errors b)"
  by (auto simp: onPrimitive_def split: if_splits jsval.splits dest: checkPrimitive_errorsUnder)

lemma clone_errorsUnder: "clone C c any t p = Inr b \<Longrightarrow> errorsUnder p (errors b)"
proof (induction C c any t p arbitrary: b rule: clone.induct)
  case (1 C c any t p)
  then show ?case using onArray_errorsUnder [of "clone C c" "ArrayT t" C any p b] by simp
next
  case (2 C c any t p)
  then show ?case using onMap_errorsUnder [of "clone C c" "MapT t" C any p b] by simp
next
  case (3 C c any e n fs p)
  then show ?case
    using onRecord_errorsUnder [of "RecordT e n fs" "clone C c" C c any p b] by simp
next
  case (4 C c any w ts p)
  then show ?case
    using onUnion_errorsUnder [of "UnionT w ts" "clone C c" C c any p b] by simp
next
  case (5 C c any n t p)
  then show ?case
    using onLogical_errorsUnder [of "clone C c" "LogicalT n t" C c any p b] by simp
qed (simp_all add: onPrimitive_errorsUnder)

lemma objectLike_iff: "objectLike any \<longleftrightarrow> \<not> (any = Null \<or> any = Undefined \<or> typeof any \<noteq> ''object'')"
  by (cases any) (simp_all add: objectLike_def)

lemma newValueError_desc_eq:
  "newValueError C d v t p = newValueError C d' v t p \<longleftrightarrow> d = d'"
  by (simp add: newValueError_def)

lemma errorsUnder_strict:
  "errorsUnder (p @ [s]) es \<Longrightarrow> e \<in> set es \<Longrightarrow> errPath e \<noteq> p"
  by (auto simp: errorsUnder_def)

lemma notObject_not_child:
  assumes "\<And>b'. r = Inr b' \<Longrightarrow> errorsUnder (p @ [s]) (errors b')"
  shows "newValueError C d v t p \<notin> set (errorsOf r)"
proof (cases r)
  case (Inr b')
  from assms [OF Inr] show ?thesis
    using errorsUnder_strict [of p s "errors b'" "newValueError C d v t p"] Inr by auto
qed (simp add: errorsOf_def)

lemma onMap_objectLike_no_error:
  assumes obj: "objectLike any" and res: "clone C c any (MapT vt) p = Inr b"
  shows "newValueError C d any (MapT vt) p \<notin> set (errors b)"
proof (cases "onMapKeys (\<lambda>x q. clone C c x vt q) any p (sort (objectKeys any)) (newBuilder, [])")
  case (Inl e)
  with res show ?thesis by (simp add: onMap_objectLike [OF obj])
next
  case (Inr st)
  obtain b' v where st: "st = (b', v)" by (cases st)
  from res Inr st have b: "errors b = errors b'"
    by (cases "isOk b'") (auto simp: onMap_objectLike [OF obj])
  have "newValueError C d any (MapT vt) p \<notin> set (errorsOf (clone C c x vt (p @ [Key k])))" for x k
    by (rule notObject_not_child [of _ p "Key k"]) (rule clone_errorsUnder)
  then show ?thesis
    using onMapKeys_errors [of "\<lambda>x q. clone C c x vt q" any p "sort (objectKeys any)"
        newBuilder "[]" b' v] Inr st b
    by auto
qed

lemma onRecord_objectLike_no_error:
  assumes obj: "objectLike any" and res: "clone C c any (RecordT e n fs) p = Inr b"
  shows "newValueError C ''is not a valid object'' any (RecordT e n fs) p \<notin> set (errors b)"
proof -
  let ?E = "newValueError C ''is not a valid object'' any (RecordT e n fs) p"
  have "?E \<notin> set (errorsOf (fieldResult (clone C c) any p fld))" for fld
    unfolding fieldResult_def
    by (rule notObject_not_child [of _ p "Key (fieldName fld)"]) (rule clone_errorsUnder)
  moreover have "?E \<notin> set (undeclaredErrors C c any (RecordT e n fs) p)"
    by (simp add: undeclaredErrors_def newValueError_desc_eq)
  moreover have "?E \<notin> set (missingErrors C any (RecordT e n fs) p)"
    by (simp add: missingErrors_def newValueError_desc_eq)
  ultimately show ?thesis
    using onRecord_errors [OF obj, of C c "clone C c" "RecordT e n fs" p b] res by auto
qed

section \<open>The object check of records and maps\<close>

text \<open>
  Claim C10. For a map type and for a record type, whenever \<^verbatim>\<open>clone\<close> returns a builder,
  the error \<^verbatim>\<open>is not a valid object\<close> for the input at the path of the call is among
  its errors exactly when the input is \<^verbatim>\<open>null\<close>, \<^verbatim>\<open>undefined\<close> or of a \<^verbatim>\<open>typeof\<close>
  other than \<^verbatim>\<open>object\<close>. For such an input the result is that one error; for any other
  input the result is that of the loop over the sorted keys (map) or over the declared
  fields (record). An array and a wrapper object have \<^verbatim>\<open>typeof\<close> \<^verbatim>\<open>object\<close>, and the keys
  of an array are its index strings.
\<close>

theorem not_a_valid_object_exactly:
  "(clone C c any (MapT vt) p = Inr b \<longrightarrow>
      (newValueError C ''is not a valid object'' any (MapT vt) p \<in> set (errors b)
         \<longleftrightarrow> any = Null \<or> any = Undefined \<or> typeof any \<noteq> ''object''))
   \<and> (clone C c any (RecordT e n fs) p = Inr b \<longrightarrow>
      (newValueError C ''is not a valid object'' any (RecordT e n fs) p \<in> set (errors b)
         \<longleftrightarrow> any = Null \<or> any = Undefined \<or> typeof any \<noteq> ''object''))
   \<and> (any = Null \<or> any = Undefined \<or> typeof any \<noteq> ''object'' \<longrightarrow>
        clone C c any (MapT vt) p
          = Inr (addError C newBuilder ''is not a valid object'' any (MapT vt) p)
        \<and> clone C c any (RecordT e n fs) p
          = Inr (addError C newBuilder ''is not a valid object'' any (RecordT e n fs) p))
   \<and> (\<not> (any = Null \<or> any = Undefined \<or> typeof any \<noteq> ''object'') \<longrightarrow>
        clone C c any (MapT vt) p
          = (case onMapKeys (\<lambda>x q. clone C c x vt q) any p (sort (objectKeys any))
                    (newBuilder, []) of
               Inl ex \<Rightarrow> Inl ex
             | Inr (builder, val) \<Rightarrow>
                 Inr (if isOk builder then builder\<lparr> value := Obj val \<rparr> else builder))
        \<and> clone C c any (RecordT e n fs) p
          = (case onFields C c (clone C c) any p fs
                    (recordStart C c any (RecordT e n fs) p, [], []) of
               Inl ex \<Rightarrow> Inl ex
             | Inr st \<Rightarrow> Inr (recordFinish C c any (RecordT e n fs) p st)))
   \<and> typeof (Arr xs) = ''object'' \<and> typeof (Boxed v) = ''object''
   \<and> objectKeys (Arr xs) = indexKeys (length xs)"
proof (cases "objectLike any")
  case True
  then show ?thesis
    using onMap_objectLike_no_error [of any C c vt p b]
      onRecord_objectLike_no_error [of any C c e n fs p b]
      onMap_objectLike [of any C "clone C c" "MapT vt" p]
      onRecord_objectLike [of any C c "clone C c" "RecordT e n fs" p]
    by (simp add: objectLike_iff)
next
  case False
  then show ?thesis
    using onMap_other [of any C "clone C c" "MapT vt" p]
      onRecord_other [of any C c "clone C c" "RecordT e n fs" p]
    by (auto simp: objectLike_iff)
qed

theorem not_a_valid_object_exactly_witness:
  "clone sampleCaps encoder (Num 0) (MapT (PrimT PInt)) []
     = Inr \<lparr> value = Undefined,
             errors = [\<lparr> message = ''$ has type map but is not a valid object: 0'',
                         errValue = Num 0, expectedType = MapT (PrimT PInt), errPath = [] \<rparr>] \<rparr>
   \<and> clone sampleCaps encoder (Arr [Num 7, Num 8]) (MapT (PrimT PInt)) []
     = Inr \<lparr> value = Obj [(''0'', Num 7), (''1'', Num 8)], errors = [] \<rparr>
   \<and> clone sampleCaps encoder (Boxed (Num 5)) (RecordT False ''R'' []) []
     = Inr \<lparr> value = Obj [], errors = [] \<rparr>
   \<and> clone sampleCaps encoder (Str ''ab'') (RecordT False ''R'' []) []
     = Inr \<lparr> value = Undefined,
             errors = [newValueError sampleCaps ''is not a valid object'' (Str ''ab'')
                         (RecordT False ''R'' []) []] \<rparr>"
proof -
  have e1: "clone sampleCaps encoder (Num 0) (MapT (PrimT PInt)) []
     = Inr \<lparr> value = Undefined,
             errors = [\<lparr> message = ''$ has type map but is not a valid object: 0'',
                         errValue = Num 0, expectedType = MapT (PrimT PInt), errPath = [] \<rparr>] \<rparr>"
    by code_simp
  have e2: "clone sampleCaps encoder (Arr [Num 7, Num 8]) (MapT (PrimT PInt)) []
     = Inr \<lparr> value = Obj [(''0'', Num 7), (''1'', Num 8)], errors = [] \<rparr>"
    by code_simp
  have e3: "clone sampleCaps encoder (Boxed (Num 5)) (RecordT False ''R'' []) []
     = Inr \<lparr> value = Obj [], errors = [] \<rparr>"
    by code_simp
  have e4: "clone sampleCaps encoder (Str ''ab'') (RecordT False ''R'' []) []
     = Inr \<lparr> value = Undefined,
             errors = [newValueError sampleCaps ''is not a valid object'' (Str ''ab'')
                         (RecordT False ''R'' []) []] \<rparr>"
    using not_a_valid_object_exactly [of sampleCaps encoder "Str ''ab''" "PrimT PInt" "[]" _
        False "''R''" "[]" "[]" Null]
    by (simp add: addError_def newBuilder_def)
  from e1 e2 e3 e4 show ?thesis by simp
qed

section \<open>Field values of a record\<close>







section \<open>Encoded values are defined\<close>



lemma finish_value: "isOk b' \<Longrightarrow> value (if isOk b then b\<lparr> value := v \<rparr> else b) = v" if "b' = b"
  using that by simp










section \<open>Default elision\<close>



section \<open>Defaults of absent fields\<close>

text \<open>
  Claim C9. Under \<^verbatim>\<open>TO_JSON\<close> without \<^verbatim>\<open>omitDefaultValues\<close>, a field that the input
  lacks and that has a default is given the value of the clone of that default, and the
  builder and the missing fields are left as they were: the errors of that clone go
  nowhere. The errors of a record are its undeclared-fields error, the errors of the
  clones of the fields the input holds, and its missing-fields error; the absent field
  is not among those fields.
\<close>

theorem absent_field_default_errors_discarded:
  assumes enc: "mode c = TO_JSON" and keep: "\<not> omitDefaultValues c"
    and absent: "getProp any (fieldName fld) = Undefined"
    and dflt: "defaultValue fld \<noteq> Undefined"
  shows "onField C c (clone C c) any p fld (builder, missingFields, args) =
           (case clone C c (defaultValue fld) (fieldType fld) (p @ [Key (fieldName fld)]) of
              Inl ex \<Rightarrow> Inl ex
            | Inr fb \<Rightarrow> Inr (builder, missingFields, args @ [value fb]))
         \<and> fld \<notin> set (presentFields any fs)
         \<and> (\<forall>b. objectLike any \<and> clone C c any (RecordT e n fs) p = Inr b \<longrightarrow>
               errors b = undeclaredErrors C c any (RecordT e n fs) p
                 @ concat (map (\<lambda>f. errorsOf (fieldResult (clone C c) any p f)) (presentFields any fs))
                 @ missingErrors C any (RecordT e n fs) p)"
proof (intro conjI allI impI)
  show "onField C c (clone C c) any p fld (builder, missingFields, args) =
           (case clone C c (defaultValue fld) (fieldType fld) (p @ [Key (fieldName fld)]) of
              Inl ex \<Rightarrow> Inl ex
            | Inr fb \<Rightarrow> Inr (builder, missingFields, args @ [value fb]))"
    using assms by (simp add: onField_def Let_def)
next
  show "fld \<notin> set (presentFields any fs)" using absent by (simp add: presentFields_def)
next
  fix b assume "objectLike any \<and> clone C c any (RecordT e n fs) p = Inr b"
  then show "errors b = undeclaredErrors C c any (RecordT e n fs) p
      @ concat (map (\<lambda>f. errorsOf (fieldResult (clone C c) any p f)) (presentFields any fs))
      @ missingErrors C any (RecordT e n fs) p"
    using onRecord_errors [of any C c "clone C c" "RecordT e n fs" p b] by simp
qed

theorem absent_field_default_errors_discarded_witness:
  "mode encoder = TO_JSON \<and> \<not> omitDefaultValues encoder
   \<and> getProp (Obj []) ''a'' = Undefined
   \<and> clone sampleCaps encoder (Str ''bad'') (PrimT PInt) [Key ''a'']
     = Inr \<lparr> value = Undefined,
             errors = [newValueError sampleCaps ''invalid value'' (Str ''bad'') (PrimT PInt)
                         [Key ''a'']] \<rparr>
   \<and> onField sampleCaps encoder (clone sampleCaps encoder) (Obj []) []
        (Field ''a'' (PrimT PInt) (Str ''bad'')) (newBuilder, [], [])
     = Inr (newBuilder, [], [Undefined])
   \<and> clone sampleCaps encoder (Obj []) badDefaultRecord []
     = Inr \<lparr> value = Obj [], errors = [] \<rparr>
   \<and> clone sampleCaps encoder (Obj []) (RecordT False ''B'' [Field ''a'' (PrimT PInt) (Num 3)]) []
     = Inr \<lparr> value = Obj [(''a'', Num 3)], errors = [] \<rparr>"
proof -
  have m: "mode encoder = TO_JSON" and k: "\<not> omitDefaultValues encoder"
    by (simp_all add: encoder_def)
  have g: "getProp (Obj []) (fieldName (Field ''a'' (PrimT PInt) (Str ''bad''))) = Undefined"
    by (simp add: lookupOr_def)
  have d: "defaultValue (Field ''a'' (PrimT PInt) (Str ''bad'')) \<noteq> Undefined" by simp
  have e1: "clone sampleCaps encoder (Str ''bad'') (PrimT PInt) [Key ''a'']
     = Inr \<lparr> value = Undefined,
             errors = [newValueError sampleCaps ''invalid value'' (Str ''bad'') (PrimT PInt)
                         [Key ''a'']] \<rparr>"
    by code_simp
  have e2: "onField sampleCaps encoder (clone sampleCaps encoder) (Obj []) []
        (Field ''a'' (PrimT PInt) (Str ''bad'')) (newBuilder, [], [])
     = Inr (newBuilder, [], [Undefined])"
    using absent_field_default_errors_discarded [OF m k g d, of sampleCaps "[]" newBuilder "[]" "[]"]
      e1
    by simp
  have e3: "clone sampleCaps encoder (Obj []) badDefaultRecord []
     = Inr \<lparr> value = Obj [], errors = [] \<rparr>"
    by code_simp
  have e4: "clone sampleCaps encoder (Obj []) (RecordT False ''B'' [Field ''a'' (PrimT PInt) (Num 3)]) []
     = Inr \<lparr> value = Obj [(''a'', Num 3)], errors = [] \<rparr>"
    by code_simp
  from m k g e1 e2 e3 e4 show ?thesis by simp
qed

section \<open>Maps\<close>

lemma onMapKeys_getProp_cong:
  "(\<And>k. getProp any k = getProp any' k) \<Longrightarrow>
     onMapKeys rec any p ks st = onMapKeys rec any' p ks st"
proof (induction ks arbitrary: st)
  case Nil
  show ?case by simp
next
  case (Cons k ks)
  obtain b v where st: "st = (b, v)" by (cases st)
  show ?case using Cons.IH [OF Cons.prems] Cons.prems [of k]
    by (simp add: st Let_def cong: sum.case_cong)
qed

lemma sort_keys_permuted:
  assumes "distinct (map fst kvs)" and "distinct (map fst kvs')" and "set kvs = set kvs'"
  shows "sort (map fst kvs) = sort (map fst kvs')"
proof (rule sorted_distinct_set_unique)
  show "set (sort (map fst kvs)) = set (sort (map fst kvs'))" using assms(3) by simp
qed (use assms in simp_all)

lemma getProp_permuted:
  assumes "distinct (map fst kvs)" and "distinct (map fst kvs')" and "set kvs = set kvs'"
  shows "getProp (Obj kvs) k = getProp (Obj kvs') k"
  using map_of_inject_set [OF assms(1,2)] assms(3) by (simp add: lookupOr_def)

lemma objectLike_Obj [simp]: "objectLike (Obj kvs)"
  by (simp add: objectLike_def)

text \<open>
  Claim C6. For an input that passes the object check, \<^verbatim>\<open>_onMap\<close> runs its loop over
  \<^verbatim>\<open>Object.keys(any).sort()\<close>, which is sorted and has the keys of the input; the errors
  of the result are those of the clones of the values, in that order of the keys; and
  two objects with the same properties, listed in any order, give the same result, value
  and errors alike.
\<close>

theorem map_keys_sorted:
  "(objectLike any \<longrightarrow>
      clone C c any (MapT vt) p
        = (case onMapKeys (\<lambda>x q. clone C c x vt q) any p (sort (objectKeys any)) (newBuilder, []) of
             Inl ex \<Rightarrow> Inl ex
           | Inr (builder, val) \<Rightarrow>
               Inr (if isOk builder then builder\<lparr> value := Obj val \<rparr> else builder)))
   \<and> sorted (sort (objectKeys any)) \<and> set (sort (objectKeys any)) = set (objectKeys any)
   \<and> (objectLike any \<and> clone C c any (MapT vt) p = Inr b \<longrightarrow>
        errors b = concat (map (\<lambda>k. errorsOf (clone C c (getProp any k) vt (p @ [Key k])))
                             (sort (objectKeys any))))
   \<and> (distinct (map fst kvs) \<and> distinct (map fst kvs') \<and> set kvs = set kvs' \<longrightarrow>
        clone C c (Obj kvs) (MapT vt) p = clone C c (Obj kvs') (MapT vt) p)"
proof (intro conjI impI)
  assume "objectLike any"
  then show "clone C c any (MapT vt) p
        = (case onMapKeys (\<lambda>x q. clone C c x vt q) any p (sort (objectKeys any)) (newBuilder, []) of
             Inl ex \<Rightarrow> Inl ex
           | Inr (builder, val) \<Rightarrow>
               Inr (if isOk builder then builder\<lparr> value := Obj val \<rparr> else builder))"
    using onMap_objectLike [of any C "clone C c" "MapT vt" p] by simp
next
  assume a: "objectLike any \<and> clone C c any (MapT vt) p = Inr b"
  then have obj: "objectLike any" and res: "onMap C (clone C c) any (MapT vt) p = Inr b" by simp_all
  show "errors b = concat (map (\<lambda>k. errorsOf (clone C c (getProp any k) vt (p @ [Key k])))
                             (sort (objectKeys any)))"
  proof (cases "onMapKeys (\<lambda>x q. clone C c x vt q) any p (sort (objectKeys any)) (newBuilder, [])")
    case (Inl e)
    with res show ?thesis by (simp add: onMap_objectLike [OF obj])
  next
    case (Inr st)
    obtain b' v where st: "st = (b', v)" by (cases st)
    from res Inr st have "errors b = errors b'"
      by (cases "isOk b'") (auto simp: onMap_objectLike [OF obj])
    then show ?thesis
      using onMapKeys_errors [of "\<lambda>x q. clone C c x vt q" any p "sort (objectKeys any)"
          newBuilder "[]" b' v] Inr st
      by simp
  qed
next
  assume a: "distinct (map fst kvs) \<and> distinct (map fst kvs') \<and> set kvs = set kvs'"
  then have keys: "sort (map fst kvs) = sort (map fst kvs')"
    using sort_keys_permuted [of kvs kvs'] by simp
  have "onMapKeys (\<lambda>x q. clone C c x vt q) (Obj kvs) p ks st
      = onMapKeys (\<lambda>x q. clone C c x vt q) (Obj kvs') p ks st" for ks st
    by (rule onMapKeys_getProp_cong) (use a getProp_permuted [of kvs kvs'] in simp)
  then show "clone C c (Obj kvs) (MapT vt) p = clone C c (Obj kvs') (MapT vt) p"
    using keys by (simp add: onMap_objectLike)
qed simp_all

theorem map_keys_sorted_witness:
  "clone sampleCaps encoder (Obj [(''b'', Num 1), (''a'', Num 2)]) (MapT (PrimT PInt)) []
     = Inr \<lparr> value = Obj [(''a'', Num 2), (''b'', Num 1)], errors = [] \<rparr>
   \<and> clone sampleCaps encoder (Obj [(''a'', Num 2), (''b'', Num 1)]) (MapT (PrimT PInt)) []
     = Inr \<lparr> value = Obj [(''a'', Num 2), (''b'', Num 1)], errors = [] \<rparr>
   \<and> sort (objectKeys (Obj [(''b'', Num 1), (''a'', Num 2)])) = [''a'', ''b'']
   \<and> clone sampleCaps decoder (Obj [(''b'', Str ''x''), (''a'', Null)]) (MapT (PrimT PInt)) []
     = Inr \<lparr> value = Undefined,
             errors = [newValueError sampleCaps ''invalid value'' Null (PrimT PInt) [Key ''a''],
                       newValueError sampleCaps ''invalid value'' (Str ''x'') (PrimT PInt)
                         [Key ''b'']] \<rparr>"
proof -
  have e1: "clone sampleCaps encoder (Obj [(''b'', Num 1), (''a'', Num 2)]) (MapT (PrimT PInt)) []
     = Inr \<lparr> value = Obj [(''a'', Num 2), (''b'', Num 1)], errors = [] \<rparr>"
    by code_simp
  have d: "distinct (map fst [(''b'', Num 1), (''a'', Num 2)])
      \<and> distinct (map fst [(''a'', Num 2), (''b'', Num 1)])
      \<and> set [(''b'', Num 1), (''a'', Num 2)] = set [(''a'', Num 2), (''b'', Num 1)]"
    by auto
  have e2: "clone sampleCaps encoder (Obj [(''a'', Num 2), (''b'', Num 1)]) (MapT (PrimT PInt)) []
     = Inr \<lparr> value = Obj [(''a'', Num 2), (''b'', Num 1)], errors = [] \<rparr>"
  proof -
    have "clone sampleCaps encoder (Obj [(''b'', Num 1), (''a'', Num 2)]) (MapT (PrimT PInt)) []
        = clone sampleCaps encoder (Obj [(''a'', Num 2), (''b'', Num 1)]) (MapT (PrimT PInt)) []"
      using map_keys_sorted [of "Obj [(''b'', Num 1), (''a'', Num 2)]" sampleCaps encoder
          "PrimT PInt" "[]" _ "[(''b'', Num 1), (''a'', Num 2)]" "[(''a'', Num 2), (''b'', Num 1)]"]
        d
      by blast
    from this [symmetric] e1 show ?thesis by (rule trans)
  qed
  have e3: "sort (objectKeys (Obj [(''b'', Num 1), (''a'', Num 2)])) = [''a'', ''b'']"
    by code_simp
  have e4: "clone sampleCaps decoder (Obj [(''b'', Str ''x''), (''a'', Null)]) (MapT (PrimT PInt)) []
     = Inr \<lparr> value = Undefined,
             errors = [newValueError sampleCaps ''invalid value'' Null (PrimT PInt) [Key ''a''],
                       newValueError sampleCaps ''invalid value'' (Str ''x'') (PrimT PInt)
                         [Key ''b'']] \<rparr>"
    by code_simp
  from e1 e2 e3 e4 show ?thesis by simp
qed

section \<open>The aggregated failure\<close>

text \<open>
  When the clone of the root returns a builder with errors, the entry point
  throws one error of code \<^verbatim>\<open>ERR_AVRO_INCOMPATIBLE_VALUE\<close>: its message starts with
  the number of errors, and it carries the root type and the errors of the builder,
  all of them and in their order; with no error it returns the value. Every error of a
  clone lies at the path of the call or below it; the errors of an array are those of its items in index
  order, and the errors of a record are its undeclared-fields error, those of the fields
  the input holds in schema order, and its missing-fields error.
\<close>

lemma entry_point_aggregates:
  "(Cloner m os = Inr c \<and> clone C c any t [] = Inr b \<and> errors b \<noteq> [] \<longrightarrow>
      cloneEntry C m any t os
        = Inl (IncompatibleValue
                 (showNat (length (errors b)) @ '' error(s) when expecting '' @ typeInfo t
                    @ '':'' @ [CHR 0x0A]
                    @ join [CHR 0x0A] (map (\<lambda>e. CHR 0x09 # message e) (errors b)))
                 t (errors b)))
   \<and> (Cloner m os = Inr c \<and> clone C c any t [] = Inr b \<and> errors b = [] \<longrightarrow>
        cloneEntry C m any t os = Inr (value b))
   \<and> (clone C c any t p = Inr b \<longrightarrow> errorsUnder p (errors b))
   \<and> (clone C c (Arr xs) (ArrayT it) p = Inr b \<longrightarrow>
        errors b = concat (map (\<lambda>(i, x). errorsOf (clone C c x it (p @ [Index i])))
                             (enumerate 0 xs)))
   \<and> (objectLike any \<and> clone C c any (RecordT e n fs) p = Inr b \<longrightarrow>
        errors b = undeclaredErrors C c any (RecordT e n fs) p
          @ concat (map (\<lambda>f. errorsOf (fieldResult (clone C c) any p f)) (presentFields any fs))
          @ missingErrors C any (RecordT e n fs) p)"
proof (intro conjI impI)
  assume "Cloner m os = Inr c \<and> clone C c any t [] = Inr b \<and> errors b \<noteq> []"
  then show "cloneEntry C m any t os
        = Inl (IncompatibleValue
                 (showNat (length (errors b)) @ '' error(s) when expecting '' @ typeInfo t
                    @ '':'' @ [CHR 0x0A]
                    @ join [CHR 0x0A] (map (\<lambda>e. CHR 0x09 # message e) (errors b)))
                 t (errors b))"
    by (simp add: cloneEntry_def build_def)
next
  assume "Cloner m os = Inr c \<and> clone C c any t [] = Inr b \<and> errors b = []"
  then show "cloneEntry C m any t os = Inr (value b)"
    by (simp add: cloneEntry_def build_def)
next
  assume "clone C c any t p = Inr b"
  then show "errorsUnder p (errors b)" by (rule clone_errorsUnder)
next
  assume res: "clone C c (Arr xs) (ArrayT it) p = Inr b"
  show "errors b = concat (map (\<lambda>(i, x). errorsOf (clone C c x it (p @ [Index i])))
                             (enumerate 0 xs))"
  proof (cases "onArrayItems (\<lambda>x q. clone C c x it q) p 0 xs (newBuilder, [])")
    case (Inl ex)
    with res show ?thesis by (simp add: onArray_Arr)
  next
    case (Inr st)
    obtain b' v where st: "st = (b', v)" by (cases st)
    from res Inr st have "errors b = errors b'"
      by (cases "isOk b'") (auto simp: onArray_Arr)
    then show ?thesis
      using onArrayItems_errors [of "\<lambda>x q. clone C c x it q" p 0 xs newBuilder "[]" b' v] Inr st
      by simp
  qed
next
  assume "objectLike any \<and> clone C c any (RecordT e n fs) p = Inr b"
  then show "errors b = undeclaredErrors C c any (RecordT e n fs) p
          @ concat (map (\<lambda>f. errorsOf (fieldResult (clone C c) any p f)) (presentFields any fs))
          @ missingErrors C any (RecordT e n fs) p"
    using onRecord_errors [of any C c "clone C c" "RecordT e n fs" p b] by simp
qed

lemma entry_point_aggregates_example:
  "Cloner FROM_JSON noOpts = Inr decoder
   \<and> clone sampleCaps decoder (Obj [(''b'', Arr [Num 1, Str ''x''])]) sampleRecord []
     = Inr \<lparr> value = Undefined,
             errors =
               [newValueError sampleCaps ''invalid value'' (Str ''x'') (PrimT PInt)
                  [Key ''b'', Index 1],
                newValueError sampleCaps ''is missing 1 field(s) (a)''
                  (Obj [(''b'', Arr [Num 1, Str ''x''])]) sampleRecord []] \<rparr>
   \<and> fromJSON sampleCaps (Obj [(''b'', Arr [Num 1, Str ''x''])]) sampleRecord noOpts
     = Inl (IncompatibleValue
              (''2 error(s) when expecting type R:'' @ [CHR 0x0A, CHR 0x09]
                 @ ''$.b[1] has type int but invalid value: '' @ [CHR 0x22] @ ''x'' @ [CHR 0x22]
                 @ [CHR 0x0A, CHR 0x09]
                 @ ''$ has type R but is missing 1 field(s) (a): ...'')
              sampleRecord
              [newValueError sampleCaps ''invalid value'' (Str ''x'') (PrimT PInt)
                 [Key ''b'', Index 1],
               newValueError sampleCaps ''is missing 1 field(s) (a)''
                 (Obj [(''b'', Arr [Num 1, Str ''x''])]) sampleRecord []])"
proof -
  let ?any = "Obj [(''b'', Arr [Num 1, Str ''x''])]"
  let ?es = "[newValueError sampleCaps ''invalid value'' (Str ''x'') (PrimT PInt)
                  [Key ''b'', Index 1],
                newValueError sampleCaps ''is missing 1 field(s) (a)'' ?any sampleRecord []]"
  have h1: "Cloner FROM_JSON noOpts = Inr decoder"
    by (simp add: Cloner_def noOpts_def decoder_def)
  have h2: "clone sampleCaps decoder ?any sampleRecord [] = Inr \<lparr> value = Undefined, errors = ?es \<rparr>"
    by code_simp
  have h3: "errors \<lparr> value = Undefined, errors = ?es \<rparr> \<noteq> []" by simp
  from entry_point_aggregates [of FROM_JSON noOpts decoder sampleCaps ?any sampleRecord
      "\<lparr> value = Undefined, errors = ?es \<rparr>"] h1 h2 h3
  have "cloneEntry sampleCaps FROM_JSON ?any sampleRecord noOpts
      = Inl (IncompatibleValue
               (showNat (length ?es) @ '' error(s) when expecting '' @ typeInfo sampleRecord
                  @ '':'' @ [CHR 0x0A] @ join [CHR 0x0A] (map (\<lambda>e. CHR 0x09 # message e) ?es))
               sampleRecord ?es)"
    by simp
  moreover have "showNat (length ?es) @ '' error(s) when expecting '' @ typeInfo sampleRecord
                  @ '':'' @ [CHR 0x0A] @ join [CHR 0x0A] (map (\<lambda>e. CHR 0x09 # message e) ?es)
      = ''2 error(s) when expecting type R:'' @ [CHR 0x0A, CHR 0x09]
                 @ ''$.b[1] has type int but invalid value: '' @ [CHR 0x22] @ ''x'' @ [CHR 0x22]
                 @ [CHR 0x0A, CHR 0x09]
                 @ ''$ has type R but is missing 1 field(s) (a): ...''"
    by code_simp
  ultimately show ?thesis using h1 h2 by (simp add: fromJSON_def)
qed

text \<open>\<^verbatim>\<open>fromJSON\<close> reports the two problems of the same input in one failure.\<close>

lemma bufferRecord_fromJSON:
  "fromJSON sampleCaps (Obj [(''b'', Num 42)]) bufferRecord noOpts
     = Inl (IncompatibleValue
              (''2 error(s) when expecting type P:'' @ [CHR 0x0A, CHR 0x09]
                 @ ''$.b has type bytes but is not a string: 42''
                 @ [CHR 0x0A, CHR 0x09]
                 @ ''$ has type P but is missing 1 field(s) (a): ...'')
              bufferRecord
              [newValueError sampleCaps ''is not a string'' (Num 42) BytesT [Key ''b''],
               newValueError sampleCaps ''is missing 1 field(s) (a)''
                 (Obj [(''b'', Num 42)]) bufferRecord []])"
  by code_simp

text \<open>
  Claim C4. One call of an entry point is to report every problem of the input in a
  single failure of code \<^verbatim>\<open>ERR_AVRO_INCOMPATIBLE_VALUE\<close>. Under \<^verbatim>\<open>TO_JSON\<close> it does
  not when one of the problems is an invalid value of a buffer type. The record type
  \<open>bufferRecord\<close> has an \<^verbatim>\<open>int\<close> field \<^verbatim>\<open>a\<close> and a \<^verbatim>\<open>bytes\<close> field \<^verbatim>\<open>b\<close>; the input
  \<^verbatim>\<open>{b: 42}\<close> misses \<^verbatim>\<open>a\<close> and holds an invalid \<^verbatim>\<open>b\<close>. For every type model under which
  \<^verbatim>\<open>42\<close> is not a valid \<^verbatim>\<open>bytes\<close> value, and whatever the options, \<^verbatim>\<open>toJSON\<close> throws the
  \<^verbatim>\<open>TypeError\<close> of line 195 and reports neither problem.
\<close>

theorem toJSON_two_problems_throws:
  assumes "\<not> isValid C BytesT (Num 42)"
  shows "toJSON C (Obj [(''b'', Num 42)]) bufferRecord os = Inl TypeError"
proof -
  let ?any = "Obj [(''b'', Num 42)]"
  define c where "c = \<lparr> mode = TO_JSON,
    allowUndeclaredFields = optAllowUndeclaredFields os,
    omitDefaultValues = optOmitDefaultValues os \<rparr>"
  have ce: "Cloner TO_JSON os = Inr c" by (simp add: Cloner_def c_def)
  have b: "onPrimitive C c (Num 42) BytesT q = Inl TypeError" for q
    using assms
    by (simp add: onPrimitive_def checkPrimitive_def toStringBinary_def isBufferType_def c_def)
  have fa: "onField C c (clone C c) ?any [] (Field ''a'' (PrimT PInt) Undefined) (bd, ms, as)
      = Inr (bd, ms @ [''a''], as @ [Undefined])" for bd ms as
    by (simp add: onField_def lookupOr_def)
  have fb: "onField C c (clone C c) ?any [] (Field ''b'' BytesT Undefined) (bd, ms, as)
      = Inl TypeError" for bd ms as
    by (simp add: onField_def lookupOr_def Let_def b)
  have "onFields C c (clone C c) ?any []
      [Field ''a'' (PrimT PInt) Undefined, Field ''b'' BytesT Undefined] (bd, [], [])
      = Inl TypeError" for bd
    by (simp add: fa fb)
  then have "clone C c ?any bufferRecord [] = Inl TypeError"
    by (simp add: bufferRecord_def onRecord_def Let_def)
  with ce show ?thesis by (simp add: toJSON_def cloneEntry_def)
qed

theorem toJSON_two_problems_throws_witness:
  "\<not> isValid sampleCaps BytesT (Num 42)
   \<and> toJSON sampleCaps (Obj [(''b'', Num 42)]) bufferRecord noOpts = Inl TypeError
   \<and> fromJSON sampleCaps (Obj [(''b'', Num 42)]) bufferRecord noOpts
     = Inl (IncompatibleValue
              (''2 error(s) when expecting type P:'' @ [CHR 0x0A, CHR 0x09]
                 @ ''$.b has type bytes but is not a string: 42''
                 @ [CHR 0x0A, CHR 0x09]
                 @ ''$ has type P but is missing 1 field(s) (a): ...'')
              bufferRecord
              [newValueError sampleCaps ''is not a string'' (Num 42) BytesT [Key ''b''],
               newValueError sampleCaps ''is missing 1 field(s) (a)''
                 (Obj [(''b'', Num 42)]) bufferRecord []])"
proof -
  have v: "\<not> isValid sampleCaps BytesT (Num 42)" by (simp add: sampleCaps_def)
  from toJSON_two_problems_throws [OF v, of noOpts] v bufferRecord_fromJSON
  show ?thesis by (intro conjI)
qed

section \<open>The round trip of a map\<close>

text \<open>The assignment of line 323 never stores the key \<^verbatim>\<open>__proto__\<close>, so no map that an
  entry point returns has it.\<close>

lemma insertIndex_keys: "fst ` set (insertIndex kvs k v) = insert k (fst ` set kvs)"
  by (induction kvs) auto

lemma objAssign_keys:
  "fst ` set (objAssign kvs k v)
     = (if k = ''__proto__'' then fst ` set kvs else insert k (fst ` set kvs))"
proof -
  have "fst ` set (map (\<lambda>p. if fst p = k then (k, v) else p) kvs) = fst ` set kvs"
    by (induction kvs) auto
  then show ?thesis by (auto simp: objAssign_def insertIndex_keys)
qed

lemma onMapKeys_no_proto:
  "onMapKeys rec any p ks (b0, v0) = Inr (b, v) \<Longrightarrow> ''__proto__'' \<notin> fst ` set v0
     \<Longrightarrow> ''__proto__'' \<notin> fst ` set v"
proof (induction ks arbitrary: b0 v0)
  case Nil
  then show ?case by simp
next
  case (Cons k ks)
  show ?case
  proof (cases "rec (getProp any k) (p @ [Key k])")
    case (Inl e)
    with Cons.prems show ?thesis by simp
  next
    case (Inr vb)
    let ?b' = "copyErrorsFrom b0 vb"
    let ?v' = "if isOk ?b' then objAssign v0 k (value vb) else v0"
    from Cons.prems(1) Inr have step: "onMapKeys rec any p ks (?b', ?v') = Inr (b, v)"
      by (simp add: Let_def)
    have "''__proto__'' \<notin> fst ` set ?v'"
      using Cons.prems(2) by (simp add: objAssign_keys)
    with step show ?thesis by (rule Cons.IH)
  qed
qed

lemma onMap_no_proto:
  assumes "onMap C rec any t p = Inr b" and "isOk b"
  shows "\<exists>vs. value b = Obj vs \<and> ''__proto__'' \<notin> fst ` set vs"
proof (cases "objectLike any")
  case False
  with assms show ?thesis by (auto simp: onMap_def objectLike_def isOk_def)
next
  case True
  show ?thesis
  proof (cases "onMapKeys (\<lambda>x q. rec x (valuesType t) q) any p (sort (objectKeys any)) (newBuilder, [])")
    case (Inl e)
    with assms True show ?thesis by (simp add: onMap_def objectLike_def)
  next
    case (Inr st)
    obtain b1 v1 where st: "st = (b1, v1)" by (cases st)
    from onMapKeys_no_proto [OF Inr [unfolded st]] have np: "''__proto__'' \<notin> fst ` set v1" by simp
    from assms True Inr st have "value b = Obj v1"
      by (cases "isOk b1") (auto simp: onMap_def objectLike_def)
    with np show ?thesis by simp
  qed
qed

lemma cloneEntry_map_no_proto:
  assumes "cloneEntry C m any (MapT t) os = Inr v"
  shows "\<exists>vs. v = Obj vs \<and> ''__proto__'' \<notin> fst ` set vs"
proof -
  from assms obtain c b where b: "clone C c any (MapT t) [] = Inr b" "errors b = []" "v = value b"
    by (auto simp: cloneEntry_def build_def split: sum.splits if_splits)
  from b(1) have "onMap C (clone C c) any (MapT t) [] = Inr b" by simp
  from onMap_no_proto [OF this] b(2,3) show ?thesis by (simp add: isOk_def)
qed

lemma protoMap_toJSON:
  "toJSON sampleCaps (Obj [(''__proto__'', Num 1), (''a'', Num 2)]) (MapT (PrimT PInt)) noOpts = Inr (Obj [(''a'', Num 2)])"
  by code_simp

lemma protoMap_fromJSON:
  "fromJSON sampleCaps (Obj [(''a'', Num 2)]) (MapT (PrimT PInt)) noOpts = Inr (Obj [(''a'', Num 2)])"
  by code_simp

text \<open>
  Claim C1. The value that \<^verbatim>\<open>fromJSON\<close> returns on the result of \<^verbatim>\<open>toJSON\<close> is to be
  structurally equal to the value encoded. It is not for a map that has the own key
  \<^verbatim>\<open>__proto__\<close>, whatever the type of its values and the type model: the JSON value that
  \<^verbatim>\<open>toJSON\<close> returns is an object without that key, and the value that \<^verbatim>\<open>fromJSON\<close>
  returns on it is not structurally equal to the map.
\<close>

theorem round_trip_loses_proto_key:
  assumes "''__proto__'' \<in> fst ` set kvs"
  shows "(\<forall>j. toJSON C (Obj kvs) (MapT t) eopts = Inr j
            \<longrightarrow> (\<exists>js. j = Obj js \<and> ''__proto__'' \<notin> fst ` set js))
       \<and> \<not> (\<exists>j v'. toJSON C (Obj kvs) (MapT t) eopts = Inr j
                  \<and> fromJSON C j (MapT t) dopts = Inr v' \<and> jeq v' (Obj kvs))"
proof (intro conjI allI impI notI)
  fix j
  assume "toJSON C (Obj kvs) (MapT t) eopts = Inr j"
  then show "\<exists>js. j = Obj js \<and> ''__proto__'' \<notin> fst ` set js"
    unfolding toJSON_def by (rule cloneEntry_map_no_proto)
next
  assume "\<exists>j v'. toJSON C (Obj kvs) (MapT t) eopts = Inr j
                  \<and> fromJSON C j (MapT t) dopts = Inr v' \<and> jeq v' (Obj kvs)"
  then obtain j v' where d: "fromJSON C j (MapT t) dopts = Inr v'" and eq: "jeq v' (Obj kvs)"
    by blast
  from d obtain vs where vs: "v' = Obj vs" "''__proto__'' \<notin> fst ` set vs"
    unfolding fromJSON_def using cloneEntry_map_no_proto by blast
  with assms have "set (map fst vs) \<noteq> set (map fst kvs)" by auto
  with vs(1) eq show False by simp
qed

theorem round_trip_loses_proto_key_witness:
  "''__proto__'' \<in> fst ` set [(''__proto__'', Num 1), (''a'', Num 2)]
   \<and> isValid sampleCaps (PrimT PInt) (Num 1) \<and> isValid sampleCaps (PrimT PInt) (Num 2)
   \<and> toJSON sampleCaps (Obj [(''__proto__'', Num 1), (''a'', Num 2)]) (MapT (PrimT PInt)) noOpts
       = Inr (Obj [(''a'', Num 2)])
   \<and> fromJSON sampleCaps (Obj [(''a'', Num 2)]) (MapT (PrimT PInt)) noOpts
       = Inr (Obj [(''a'', Num 2)])
   \<and> \<not> jeq (Obj [(''a'', Num 2)]) (Obj [(''__proto__'', Num 1), (''a'', Num 2)])"
proof -
  have k: "''__proto__'' \<in> fst ` set [(''__proto__'', Num 1), (''a'', Num 2)]" by simp
  have v: "isValid sampleCaps (PrimT PInt) (Num 1)" "isValid sampleCaps (PrimT PInt) (Num 2)"
    by (simp_all add: sampleCaps_def)
  have e: "toJSON sampleCaps (Obj [(''__proto__'', Num 1), (''a'', Num 2)]) (MapT (PrimT PInt)) noOpts
      = Inr (Obj [(''a'', Num 2)])"
    by (rule protoMap_toJSON)
  note d = protoMap_fromJSON
  from round_trip_loses_proto_key [OF k, of sampleCaps "PrimT PInt" noOpts noOpts]
  have "\<not> (\<exists>j v'. toJSON sampleCaps (Obj [(''__proto__'', Num 1), (''a'', Num 2)])
                    (MapT (PrimT PInt)) noOpts = Inr j
                \<and> fromJSON sampleCaps j (MapT (PrimT PInt)) noOpts = Inr v'
                \<and> jeq v' (Obj [(''__proto__'', Num 1), (''a'', Num 2)]))"
    by (rule conjunct2)
  with e d have "\<not> jeq (Obj [(''a'', Num 2)]) (Obj [(''__proto__'', Num 1), (''a'', Num 2)])"
    by blast
  with k v e d show ?thesis by (intro conjI)
qed

end
